theory Spec2Isabelle
  imports Main "HOL-Library.Char_ord" "HOL-Library.List_Lexorder" "HOL-Library.Multiset"
begin

section \<open>Python values\<close>

text \<open>
  The values that flow through \<^verbatim>\<open>push_notifications/gcm.py\<close> are the ones
  \<^verbatim>\<open>json.loads\<close> produces and \<^verbatim>\<open>json.dumps\<close> accepts: \<^verbatim>\<open>None\<close>, booleans,
  integers, strings, lists and dictionaries with string keys. A dictionary is an association
  list in insertion order, read with \<open>map_of\<close>. Floating point numbers are left out.
  Registration ids are such values too: the gateway may answer any value as a replacement id
  and the code stores it as it is.
\<close>

datatype json =
    JNull
  | JBool bool
  | JInt int
  | JStr string
  | JList "json list"
  | JObj "(string \<times> json) list"

datatype py_error =
    ImproperlyConfigured
  | HTTPError
  | GCMError json
  | KeyError
  | IndexError
  | ValueError
  | TypeError
  | AttributeError

text \<open>Truth value testing of Python: \<^verbatim>\<open>if x:\<close>.\<close>

fun py_truthy :: "json \<Rightarrow> bool" where
  "py_truthy JNull = False"
| "py_truthy (JBool b) = b"
| "py_truthy (JInt i) = (i \<noteq> 0)"
| "py_truthy (JStr s) = (s \<noteq> [])"
| "py_truthy (JList xs) = (xs \<noteq> [])"
| "py_truthy (JObj kvs) = (kvs \<noteq> [])"

text \<open>\<^verbatim>\<open>d.get(k)\<close>: \<^verbatim>\<open>None\<close> for a missing key; only a dictionary has the method.\<close>

definition dict_get :: "(string \<times> json) list \<Rightarrow> string \<Rightarrow> json" where
  "dict_get kvs k = (case map_of kvs k of None \<Rightarrow> JNull | Some v \<Rightarrow> v)"

fun py_get :: "json \<Rightarrow> string \<Rightarrow> py_error + json" where
  "py_get (JObj kvs) k = Inr (dict_get kvs k)"
| "py_get _ k = Inl AttributeError"

text \<open>\<^verbatim>\<open>d[k]\<close> on a dictionary: \<^verbatim>\<open>KeyError\<close> for a missing key.\<close>

fun py_getitem :: "json \<Rightarrow> string \<Rightarrow> py_error + json" where
  "py_getitem (JObj kvs) k = (case map_of kvs k of None \<Rightarrow> Inl KeyError | Some v \<Rightarrow> Inr v)"
| "py_getitem _ k = Inl TypeError"

text \<open>
  What \<^verbatim>\<open>enumerate(x)\<close> iterates over: the elements of a list, the keys of a
  dictionary, the characters of a string; anything else is not iterable.
\<close>

fun py_iter :: "json \<Rightarrow> py_error + json list" where
  "py_iter (JList xs) = Inr xs"
| "py_iter (JObj kvs) = Inr (map (\<lambda>kv. JStr (fst kv)) kvs)"
| "py_iter (JStr s) = Inr (map (\<lambda>c. JStr [c]) s)"
| "py_iter _ = Inl TypeError"

text \<open>\<^verbatim>\<open>xs[i]\<close> for an index that is not negative: \<^verbatim>\<open>IndexError\<close> out of range.\<close>

definition py_index :: "'a list \<Rightarrow> nat \<Rightarrow> py_error + 'a" where
  "py_index xs i = (if i < length xs then Inr (xs ! i) else Inl IndexError)"

section \<open>The batcher\<close>

text \<open>
  \<^verbatim>\<open>range(0, len, n)\<close> as the list of its values. A step of zero raises
  \<^verbatim>\<open>ValueError\<close>; a negative step gives the empty range, since the start is not above
  the stop.
\<close>

definition py_range_step :: "nat \<Rightarrow> int \<Rightarrow> py_error + nat list" where
  "py_range_step len n =
     (if n = 0 then Inl ValueError
      else if n < 0 then Inr []
      else Inr (map (\<lambda>k. k * nat n) [0 ..< (len + nat n - 1) div nat n]))"

text \<open>The slice \<^verbatim>\<open>l[i:i + n]\<close> for \<open>0 \<le> i\<close> and \<open>0 < n\<close>.\<close>

definition py_slice :: "'a list \<Rightarrow> nat \<Rightarrow> nat \<Rightarrow> 'a list" where
  "py_slice l i n = take n (drop i l)"

text \<open>
  \<^verbatim>\<open>
  def _chunks(l, n):
      for i in range(0, len(l), n):
          yield l[i:i + n]
  \<close>
  The generator is consumed by one \<^verbatim>\<open>for\<close> loop, so it is the list of what it yields.
\<close>

definition chunks :: "'a list \<Rightarrow> int \<Rightarrow> py_error + 'a list list" where
  "chunks l n =
     (case py_range_step (length l) n of
        Inl e \<Rightarrow> Inl e
      | Inr starts \<Rightarrow> Inr (map (\<lambda>i. py_slice l i (nat n)) starts))"

section \<open>The device registry\<close>

text \<open>
  Modelled from the spec: the registry \<^verbatim>\<open>GCMDevice.objects\<close> of
  \<^verbatim>\<open>push_notifications/models.py\<close>, a table whose rows carry a token, an active flag
  and the owning application. The table is the list of its rows; an update rewrites the rows
  a filter selects and leaves every row at its position.
\<close>

record device =
  registration_id :: json
  active :: bool
  application_id :: string

type_synonym registry = "device list"

text \<open>
  Modelled from the spec: \<^verbatim>\<open>filter(registration_id__in=ids).update(active=0)\<close>, the
  registry operation that sets the active flag to false on all rows whose token is listed.
\<close>

definition deactivate_by_tokens :: "json list \<Rightarrow> registry \<Rightarrow> registry" where
  "deactivate_by_tokens ids reg =
     map (\<lambda>d. if registration_id d \<in> set ids then d\<lparr>active := False\<rparr> else d) reg"

text \<open>
  Modelled from the spec: \<^verbatim>\<open>filter(registration_id=t, active=True).exists()\<close>, the
  lookup of an active row by token.
\<close>

definition exists_active :: "json \<Rightarrow> registry \<Rightarrow> bool" where
  "exists_active t reg = list_ex (\<lambda>d. registration_id d = t \<and> active d) reg"

text \<open>
  Modelled from the spec: \<^verbatim>\<open>filter(registration_id=t).update(active=False)\<close>.
\<close>

definition deactivate_by_token :: "json \<Rightarrow> registry \<Rightarrow> registry" where
  "deactivate_by_token t reg =
     map (\<lambda>d. if registration_id d = t then d\<lparr>active := False\<rparr> else d) reg"

text \<open>
  Modelled from the spec: \<^verbatim>\<open>filter(registration_id=old).update(registration_id=new)\<close>.
\<close>

definition rename_token :: "json \<Rightarrow> json \<Rightarrow> registry \<Rightarrow> registry" where
  "rename_token old new reg =
     map (\<lambda>d. if registration_id d = old then d\<lparr>registration_id := new\<rparr> else d) reg"

section \<open>The response reconciler\<close>

text \<open>
  \<^verbatim>\<open>
  def _cm_handle_canonical_id(canonical_id, current_id):
      devices = GCMDevice.objects
      if devices.filter(registration_id=canonical_id, active=True).exists():
          devices.filter(registration_id=current_id).update(active=False)
      else:
          devices.filter(registration_id=current_id).update(registration_id=canonical_id)
  \<close>
\<close>

definition cm_handle_canonical_id :: "json \<Rightarrow> json \<Rightarrow> registry \<Rightarrow> registry" where
  "cm_handle_canonical_id canonical_id current_id reg =
     (if exists_active canonical_id reg
      then deactivate_by_token current_id reg
      else rename_token current_id canonical_id reg)"

text \<open>The three variables the loop over the results array updates.\<close>

record scan =
  ids_to_remove :: "json list"
  old_new_ids :: "(json \<times> json) list"
  throw_error :: bool

text \<open>
  One turn of the loop \<^verbatim>\<open>for index, result in enumerate(response["results"])\<close>:
  \<^verbatim>\<open>
  error = result.get("error")
  if error:
      if error in ("NotRegistered", "InvalidRegistration"):
          ids_to_remove.append(registration_ids[index])
      else:
          throw_error = True
  new_id = result.get("registration_id")
  if new_id:
      old_new_ids.append((registration_ids[index], new_id))
  \<close>
\<close>

definition scan_result :: "json list \<Rightarrow> nat \<Rightarrow> json \<Rightarrow> scan \<Rightarrow> py_error + scan" where
  "scan_result registration_ids index result st =
     (case py_get result ''error'' of
        Inl e \<Rightarrow> Inl e
      | Inr error \<Rightarrow>
         (case (if py_truthy error then
                  (if error = JStr ''NotRegistered'' \<or> error = JStr ''InvalidRegistration''
                   then (case py_index registration_ids index of
                           Inl e \<Rightarrow> Inl e
                         | Inr t \<Rightarrow> Inr (st\<lparr>ids_to_remove := ids_to_remove st @ [t]\<rparr>))
                   else Inr (st\<lparr>throw_error := True\<rparr>))
                else Inr st) of
            Inl e \<Rightarrow> Inl e
          | Inr st1 \<Rightarrow>
             (case py_get result ''registration_id'' of
                Inl e \<Rightarrow> Inl e
              | Inr new_id \<Rightarrow>
                 (if py_truthy new_id then
                    (case py_index registration_ids index of
                       Inl e \<Rightarrow> Inl e
                     | Inr t \<Rightarrow> Inr (st1\<lparr>old_new_ids := old_new_ids st1 @ [(t, new_id)]\<rparr>))
                  else Inr st1))))"

fun scan_results :: "json list \<Rightarrow> json list \<Rightarrow> nat \<Rightarrow> scan \<Rightarrow> py_error + scan" where
  "scan_results registration_ids [] index st = Inr st"
| "scan_results registration_ids (result # rest) index st =
     (case scan_result registration_ids index result st of
        Inl e \<Rightarrow> Inl e
      | Inr st1 \<Rightarrow> scan_results registration_ids rest (Suc index) st1)"

text \<open>
  The loop \<^verbatim>\<open>for old_id, new_id in old_new_ids: _cm_handle_canonical_id(new_id, old_id)\<close>.
\<close>

fun apply_canonical_ids :: "(json \<times> json) list \<Rightarrow> registry \<Rightarrow> registry" where
  "apply_canonical_ids [] reg = reg"
| "apply_canonical_ids ((old_id, new_id) # rest) reg =
     apply_canonical_ids rest (cm_handle_canonical_id new_id old_id reg)"

text \<open>
  \<^verbatim>\<open>
  def _cm_handle_response(registration_ids, response_data):
      response = response_data
      if response.get("failure") or response.get("canonical_ids"):
          ids_to_remove, old_new_ids = [], []
          throw_error = False
          for index, result in enumerate(response["results"]):
              ...
          if ids_to_remove:
              removed = GCMDevice.objects.filter(registration_id__in=ids_to_remove)
              removed.update(active=0)
          for old_id, new_id in old_new_ids:
              _cm_handle_canonical_id(new_id, old_id)
          if throw_error:
              raise GCMError(response)
      return response
  \<close>
  The function returns its outcome, an exception or the response, together with the registry
  as it is when the function is left, so that a mutation made before an exception is kept.
\<close>

definition cm_handle_response ::
    "json list \<Rightarrow> json \<Rightarrow> registry \<Rightarrow> (py_error + json) \<times> registry" where
  "cm_handle_response registration_ids response reg =
     (case py_get response ''failure'' of
        Inl e \<Rightarrow> (Inl e, reg)
      | Inr failure \<Rightarrow>
         (case py_get response ''canonical_ids'' of
            Inl e \<Rightarrow> (Inl e, reg)
          | Inr canonical_ids \<Rightarrow>
             if py_truthy failure \<or> py_truthy canonical_ids then
               (case py_getitem response ''results'' of
                  Inl e \<Rightarrow> (Inl e, reg)
                | Inr results \<Rightarrow>
                   (case py_iter results of
                      Inl e \<Rightarrow> (Inl e, reg)
                    | Inr rs \<Rightarrow>
                       (case scan_results registration_ids rs 0
                               \<lparr>ids_to_remove = [], old_new_ids = [], throw_error = False\<rparr> of
                          Inl e \<Rightarrow> (Inl e, reg)
                        | Inr st \<Rightarrow>
                           (let reg1 = (if ids_to_remove st \<noteq> []
                                        then deactivate_by_tokens (ids_to_remove st) reg
                                        else reg);
                                reg2 = apply_canonical_ids (old_new_ids st) reg1
                            in if throw_error st
                               then (Inl (GCMError response), reg2)
                               else (Inr response, reg2)))))
             else (Inr response, reg)))"

section \<open>The request builder\<close>

text \<open>
  \<^verbatim>\<open>json.dumps(values, separators=(",", ":"), sort_keys=True)\<close> on the values above:
  no white space, the items of a dictionary in the order of their keys, strings escaped to
  ASCII. A character stands for a code point below 256.
\<close>

definition digit_char :: "nat \<Rightarrow> char" where
  "digit_char n = ''0123456789abcdef'' ! (n mod 16)"

function nat_to_str :: "nat \<Rightarrow> string" where
  "nat_to_str n =
     (if n < 10 then [digit_char n] else nat_to_str (n div 10) @ [digit_char (n mod 10)])"
  by pat_completeness auto
termination
  by (relation "measure id") auto

declare nat_to_str.simps [simp del]

definition int_to_str :: "int \<Rightarrow> string" where
  "int_to_str i = (if i < 0 then CHR ''-'' # nat_to_str (nat (- i)) else nat_to_str (nat i))"

definition escape_char :: "char \<Rightarrow> string" where
  "escape_char c =
     (if c = CHR 0x5C then [CHR 0x5C, CHR 0x5C]
      else if c = CHR 0x22 then [CHR 0x5C, CHR 0x22]
      else if c = CHR 0x0A then [CHR 0x5C, CHR ''n'']
      else if c = CHR 0x0D then [CHR 0x5C, CHR ''r'']
      else if c = CHR 0x09 then [CHR 0x5C, CHR ''t'']
      else if c = CHR 0x08 then [CHR 0x5C, CHR ''b'']
      else if c = CHR 0x0C then [CHR 0x5C, CHR ''f'']
      else if of_char c < (0x20 :: nat) \<or> (0x7E :: nat) < of_char c
        then [CHR 0x5C, CHR ''u'', CHR ''0'', CHR ''0'',
              digit_char (of_char c div 16), digit_char (of_char c mod 16)]
      else [c])"

definition py_encode_basestring_ascii :: "string \<Rightarrow> string" where
  "py_encode_basestring_ascii s = [CHR 0x22] @ concat (map escape_char s) @ [CHR 0x22]"

text \<open>\<^verbatim>\<open>sep.join(xs)\<close>.\<close>

fun join :: "string \<Rightarrow> string list \<Rightarrow> string" where
  "join sep [] = []"
| "join sep [x] = x"
| "join sep (x # y # ys) = x @ sep @ join sep (y # ys)"

fun json_dumps :: "json \<Rightarrow> string" where
  "json_dumps JNull = ''null''"
| "json_dumps (JBool b) = (if b then ''true'' else ''false'')"
| "json_dumps (JInt i) = int_to_str i"
| "json_dumps (JStr s) = py_encode_basestring_ascii s"
| "json_dumps (JList xs) = ''['' @ join '','' (map json_dumps xs) @ '']''"
| "json_dumps (JObj kvs) =
     ''{'' @ join '',''
        (map (\<lambda>kv. py_encode_basestring_ascii (fst kv) @ '':'' @ json_dumps (snd kv))
           (sort_key fst kvs)) @ ''}''"

text \<open>
  The dictionary \<^verbatim>\<open>values\<close> of \<^verbatim>\<open>_gcm_send_json\<close>, in insertion order:
  \<^verbatim>\<open>
  values = {"registration_ids": registration_ids}
  if data is not None:
      values["data"] = data
  if collapse_key:
      values["collapse_key"] = collapse_key
  if delay_while_idle:
      values["delay_while_idle"] = delay_while_idle
  if time_to_live:
      values["time_to_live"] = time_to_live
  \<close>
\<close>

definition gcm_values :: "json list \<Rightarrow> json \<Rightarrow> json \<Rightarrow> json \<Rightarrow> json \<Rightarrow> (string \<times> json) list" where
  "gcm_values registration_ids data collapse_key delay_while_idle time_to_live =
     [(''registration_ids'', JList registration_ids)]
     @ (if data \<noteq> JNull then [(''data'', data)] else [])
     @ (if py_truthy collapse_key then [(''collapse_key'', collapse_key)] else [])
     @ (if py_truthy delay_while_idle then [(''delay_while_idle'', delay_while_idle)] else [])
     @ (if py_truthy time_to_live then [(''time_to_live'', time_to_live)] else [])"

section \<open>The transport\<close>

text \<open>
  The settings the module reads: \<^verbatim>\<open>SETTINGS.get("GCM_API_KEY")\<close>,
  \<^verbatim>\<open>SETTINGS["GCM_POST_URL"]\<close> and \<^verbatim>\<open>SETTINGS.get("GCM_MAX_RECIPIENTS")\<close>,
  the last one an integer.
\<close>

record settings =
  GCM_API_KEY :: "string option"
  GCM_POST_URL :: "string option"
  GCM_MAX_RECIPIENTS :: int

text \<open>
  An HTTP request as \<^verbatim>\<open>Request(url, data, headers)\<close> builds it, and what
  \<^verbatim>\<open>urlopen(request).read()\<close> does with it: it raises \<^verbatim>\<open>HTTPError\<close> or returns a
  body. The body is kept as what \<^verbatim>\<open>json.loads\<close> makes of it: a value, or nothing when
  it is not JSON. The gateway is a function of the number of requests made so far and of
  the request, so that it may answer the same request differently the second time.
\<close>

record request =
  url :: string
  body :: string
  headers :: "(string \<times> string) list"

datatype reply = RaisesHTTPError | Body "json option"

type_synonym gateway = "nat \<Rightarrow> request \<Rightarrow> reply"

text \<open>What a call can change: the rows of the registry and the requests sent so far.\<close>

record world =
  devices :: registry
  sent :: "request list"

text \<open>
  \<^verbatim>\<open>
  def _gcm_send(data, content_type):
      key = SETTINGS.get("GCM_API_KEY")
      if not key:
          raise ImproperlyConfigured(...)
      headers = {
          "Content-Type": content_type,
          "Authorization": "key=%s" % (key),
          "Content-Length": str(len(data)),
      }
      request = Request(SETTINGS["GCM_POST_URL"], data, headers)
      try:
          return urlopen(request).read()
      except HTTPError as e:
          logger.error(...)
          raise e
  \<close>
\<close>

definition gcm_send ::
    "settings \<Rightarrow> gateway \<Rightarrow> string \<Rightarrow> string \<Rightarrow> world \<Rightarrow> (py_error + json option) \<times> world" where
  "gcm_send cfg gw data content_type w =
     (case GCM_API_KEY cfg of
        None \<Rightarrow> (Inl ImproperlyConfigured, w)
      | Some key \<Rightarrow>
         if key = [] then (Inl ImproperlyConfigured, w)
         else
           (let hdrs = [(''Content-Type'', content_type),
                        (''Authorization'', ''key='' @ key),
                        (''Content-Length'', nat_to_str (length data))]
            in case GCM_POST_URL cfg of
                 None \<Rightarrow> (Inl KeyError, w)
               | Some u \<Rightarrow>
                  (let req = \<lparr>url = u, body = data, headers = hdrs\<rparr>;
                       w1 = w\<lparr>sent := sent w @ [req]\<rparr>
                   in case gw (length (sent w)) req of
                        RaisesHTTPError \<Rightarrow> (Inl HTTPError, w1)
                      | Body b \<Rightarrow> (Inr b, w1))))"

text \<open>\<^verbatim>\<open>json.loads\<close> on a body: \<^verbatim>\<open>ValueError\<close> when it is not JSON.\<close>

definition json_loads :: "json option \<Rightarrow> py_error + json" where
  "json_loads b = (case b of None \<Rightarrow> Inl ValueError | Some v \<Rightarrow> Inr v)"

section \<open>The dispatch facade\<close>

text \<open>
  \<^verbatim>\<open>
  def _gcm_send_json(registration_ids, data, collapse_key=None, delay_while_idle=False,
                     time_to_live=0):
      if not registration_ids:
          return
      values = ...
      data = json.dumps(values, separators=(",", ":"), sort_keys=True).encode("utf-8")
      result = json.loads(_gcm_send(data, "application/json"))
      return _cm_handle_response(registration_ids, result)
  \<close>
  A bare \<^verbatim>\<open>return\<close> gives \<^verbatim>\<open>None\<close>.
\<close>

definition gcm_send_json ::
    "settings \<Rightarrow> gateway \<Rightarrow> json list \<Rightarrow> json \<Rightarrow> json \<Rightarrow> json \<Rightarrow> json \<Rightarrow> world
      \<Rightarrow> (py_error + json) \<times> world" where
  "gcm_send_json cfg gw registration_ids data collapse_key delay_while_idle time_to_live w =
     (if registration_ids = [] then (Inr JNull, w)
      else
        (let values = gcm_values registration_ids data collapse_key delay_while_idle time_to_live;
             data1 = json_dumps (JObj values)
         in case gcm_send cfg gw data1 ''application/json'' w of
              (Inl e, w1) \<Rightarrow> (Inl e, w1)
            | (Inr raw, w1) \<Rightarrow>
               (case json_loads raw of
                  Inl e \<Rightarrow> (Inl e, w1)
                | Inr result \<Rightarrow>
                   (case cm_handle_response registration_ids result (devices w1) of
                      (out, reg) \<Rightarrow> (out, w1\<lparr>devices := reg\<rparr>)))))"

text \<open>
  \<^verbatim>\<open>
  def gcm_send_message(registration_id, data, collapse_key=None, delay_while_idle=False,
                       time_to_live=0):
      args = data, collapse_key, delay_while_idle, time_to_live
      _gcm_send_json([registration_id], *args)
  \<close>
  The function has no \<^verbatim>\<open>return\<close>: it gives \<^verbatim>\<open>None\<close> unless the call raises.
  The parameter \<^verbatim>\<open>registration_id\<close> is written \<open>rid\<close>, the longer name being the
  field of a registry row.
\<close>

definition gcm_send_message ::
    "settings \<Rightarrow> gateway \<Rightarrow> json \<Rightarrow> json \<Rightarrow> json \<Rightarrow> json \<Rightarrow> json \<Rightarrow> world
      \<Rightarrow> (py_error + json) \<times> world" where
  "gcm_send_message cfg gw rid data collapse_key delay_while_idle time_to_live w =
     (case gcm_send_json cfg gw [rid] data collapse_key delay_while_idle
             time_to_live w of
        (Inl e, w1) \<Rightarrow> (Inl e, w1)
      | (Inr r, w1) \<Rightarrow> (Inr JNull, w1))"

text \<open>
  The loop \<^verbatim>\<open>for chunk in _chunks(...): ret.append(_gcm_send_json(chunk, *args))\<close>:
  an exception of one chunk leaves the loop and the function.
\<close>

fun send_chunks ::
    "settings \<Rightarrow> gateway \<Rightarrow> json list list \<Rightarrow> json \<Rightarrow> json \<Rightarrow> json \<Rightarrow> json \<Rightarrow> json list
      \<Rightarrow> world \<Rightarrow> (py_error + json list) \<times> world" where
  "send_chunks cfg gw [] data collapse_key delay_while_idle time_to_live ret w = (Inr ret, w)"
| "send_chunks cfg gw (chunk # rest) data collapse_key delay_while_idle time_to_live ret w =
     (case gcm_send_json cfg gw chunk data collapse_key delay_while_idle time_to_live w of
        (Inl e, w1) \<Rightarrow> (Inl e, w1)
      | (Inr r, w1) \<Rightarrow>
         send_chunks cfg gw rest data collapse_key delay_while_idle time_to_live (ret @ [r]) w1)"

text \<open>
  \<^verbatim>\<open>
  def gcm_send_bulk_message(registration_ids, data, collapse_key=None,
                            delay_while_idle=False, time_to_live=0):
      args = data, collapse_key, delay_while_idle, time_to_live
      max_recipients = SETTINGS.get("GCM_MAX_RECIPIENTS")
      if len(registration_ids) > max_recipients:
          ret = []
          for chunk in _chunks(registration_ids, max_recipients):
              ret.append(_gcm_send_json(chunk, *args))
          return ret
      return _gcm_send_json(registration_ids, *args)
  \<close>
\<close>

definition gcm_send_bulk_message ::
    "settings \<Rightarrow> gateway \<Rightarrow> json list \<Rightarrow> json \<Rightarrow> json \<Rightarrow> json \<Rightarrow> json \<Rightarrow> world
      \<Rightarrow> (py_error + json) \<times> world" where
  "gcm_send_bulk_message cfg gw registration_ids data collapse_key delay_while_idle
       time_to_live w =
     (let max_recipients = GCM_MAX_RECIPIENTS cfg
      in if int (length registration_ids) > max_recipients then
           (case chunks registration_ids max_recipients of
              Inl e \<Rightarrow> (Inl e, w)
            | Inr cs \<Rightarrow>
               (case send_chunks cfg gw cs data collapse_key delay_while_idle time_to_live [] w of
                  (Inl e, w1) \<Rightarrow> (Inl e, w1)
                | (Inr ret, w1) \<Rightarrow> (Inr (JList ret), w1)))
         else gcm_send_json cfg gw registration_ids data collapse_key delay_while_idle
                time_to_live w)"

section \<open>The reconciliation a response asks for\<close>

text \<open>
  What the spec says about one entry of the results array, read off the entry alone: its
  error code, its replacement id, whether the code is one of the two terminal ones, whether
  it is any other code.
\<close>

definition result_error :: "(string \<times> json) list \<Rightarrow> json" where
  "result_error r = dict_get r ''error''"

definition result_new_id :: "(string \<times> json) list \<Rightarrow> json" where
  "result_new_id r = dict_get r ''registration_id''"

definition terminal_error :: "json \<Rightarrow> bool" where
  "terminal_error e = (e = JStr ''NotRegistered'' \<or> e = JStr ''InvalidRegistration'')"

definition other_error :: "json \<Rightarrow> bool" where
  "other_error e = (py_truthy e \<and> \<not> terminal_error e)"

text \<open>
  The tokens marked for deactivation, the rename pairs in the order of their indices, and
  whether some entry carries a code that is not terminal. Tokens and results are paired by
  position.
\<close>

definition marked_tokens :: "json list \<Rightarrow> (string \<times> json) list list \<Rightarrow> json list" where
  "marked_tokens ids rs =
     map fst (filter (\<lambda>tr. terminal_error (result_error (snd tr))) (zip ids rs))"

definition rename_pairs :: "json list \<Rightarrow> (string \<times> json) list list \<Rightarrow> (json \<times> json) list" where
  "rename_pairs ids rs =
     map (\<lambda>tr. (fst tr, result_new_id (snd tr)))
       (filter (\<lambda>tr. py_truthy (result_new_id (snd tr))) (zip ids rs))"

definition rejected :: "(string \<times> json) list list \<Rightarrow> bool" where
  "rejected rs = list_ex (\<lambda>r. other_error (result_error r)) rs"

text \<open>The replacement ids a response carries, whatever its shape.\<close>

definition replacement_ids :: "json \<Rightarrow> json list" where
  "replacement_ids response =
     (case py_getitem response ''results'' of
        Inl e \<Rightarrow> []
      | Inr results \<Rightarrow>
         (case py_iter results of
            Inl e \<Rightarrow> []
          | Inr rs \<Rightarrow>
             filter py_truthy
               (map (\<lambda>r. case py_get r ''registration_id'' of Inl e \<Rightarrow> JNull | Inr v \<Rightarrow> v) rs)))"

text \<open>An entry whose handling reads the token at its index.\<close>

definition needs_token :: "(string \<times> json) list \<Rightarrow> bool" where
  "needs_token r = (terminal_error (result_error r) \<or> py_truthy (result_new_id r))"

text \<open>
  A rename pair is settled in a registry when applying it changes nothing: no row carries
  the old token, or an active row carries the canonical id and every row with the old token
  is inactive.
\<close>

definition settled :: "registry \<Rightarrow> json \<times> json \<Rightarrow> bool" where
  "settled reg p =
     (list_all (\<lambda>d. registration_id d \<noteq> fst p) reg
      \<or> (exists_active (snd p) reg
          \<and> list_all (\<lambda>d. registration_id d = fst p \<longrightarrow> \<not> active d) reg))"

text \<open>The serialized envelope, key by key in the order of the keys.\<close>

definition envelope_items :: "json list \<Rightarrow> json \<Rightarrow> json \<Rightarrow> json \<Rightarrow> json \<Rightarrow> string list" where
  "envelope_items ids d ck dwi ttl =
     (if py_truthy ck then [py_encode_basestring_ascii ''collapse_key'' @ '':'' @ json_dumps ck] else [])
     @ (if d \<noteq> JNull then [py_encode_basestring_ascii ''data'' @ '':'' @ json_dumps d] else [])
     @ (if py_truthy dwi
        then [py_encode_basestring_ascii ''delay_while_idle'' @ '':'' @ json_dumps dwi] else [])
     @ [py_encode_basestring_ascii ''registration_ids'' @ '':'' @ json_dumps (JList ids)]
     @ (if py_truthy ttl
        then [py_encode_basestring_ascii ''time_to_live'' @ '':'' @ json_dumps ttl] else [])"

text \<open>
  Two values have the same content when they differ at most in the order in which their
  dictionaries, at any depth, list their items: \<open>key_sorted\<close> puts every dictionary in
  the order of its keys.
\<close>

fun key_sorted :: "json \<Rightarrow> json" where
  "key_sorted (JList xs) = JList (map key_sorted xs)"
| "key_sorted (JObj kvs) = JObj (sort_key fst (map (\<lambda>kv. (fst kv, key_sorted (snd kv))) kvs))"
| "key_sorted v = v"

definition same_content :: "json \<Rightarrow> json \<Rightarrow> bool" where
  "same_content a b = (key_sorted a = key_sorted b)"

text \<open>The body of the request for one chunk.\<close>

definition envelope :: "json list \<Rightarrow> json \<Rightarrow> json \<Rightarrow> json \<Rightarrow> json \<Rightarrow> string" where
  "envelope ids d ck dwi ttl = json_dumps (JObj (gcm_values ids d ck dwi ttl))"

section \<open>Sample data\<close>

text \<open>Rows and responses the closed examples below are evaluated on.\<close>

abbreviation sample_device :: "string \<Rightarrow> bool \<Rightarrow> device" where
  "sample_device t a \<equiv> \<lparr>registration_id = JStr t, active = a, application_id = ''app''\<rparr>"

abbreviation sample_response :: "int \<Rightarrow> int \<Rightarrow> (string \<times> json) list list \<Rightarrow> json" where
  "sample_response failure canonical rs \<equiv>
     JObj [(''failure'', JInt failure), (''canonical_ids'', JInt canonical),
           (''results'', JList (map JObj rs))]"

abbreviation sample_world :: world where
  "sample_world \<equiv> \<lparr>devices = [sample_device ''A'' True], sent = []\<rparr>"

abbreviation sample_settings :: "string option \<Rightarrow> int \<Rightarrow> settings" where
  "sample_settings key n \<equiv>
     \<lparr>GCM_API_KEY = key, GCM_POST_URL = Some ''https://gcm.example/send'',
      GCM_MAX_RECIPIENTS = n\<rparr>"

abbreviation sample_gateway :: "nat \<Rightarrow> gateway" where
  "sample_gateway bad \<equiv>
     (\<lambda>n r. if n = bad
            then Body (Some (sample_response 1 0 [[(''error'', JStr ''Unavailable'')]]))
            else Body (Some (JObj [(''multicast_id'', JInt (int n))])))"

section \<open>Properties of the batcher\<close>

lemma concat_slices:
  "concat (map (\<lambda>k. take n (drop (k * n) l)) [0 ..< m]) = take (m * n) l"
proof (induction m)
  case 0
  show ?case by simp
next
  case (Suc m)
  have "take (m * n + n) l = take (m * n) l @ take n (drop (m * n) l)"
    by (rule take_add)
  with Suc show ?case by (simp add: add.commute)
qed

lemma chunk_count_covers:
  assumes "0 < (n::nat)"
  shows "len \<le> ((len + n - 1) div n) * n"
proof -
  have "(len + n - 1) mod n < n" using assms by simp
  moreover have "((len + n - 1) div n) * n + (len + n - 1) mod n = len + n - 1"
    by simp
  ultimately show ?thesis by linarith
qed

lemma chunk_start_in_range:
  assumes "0 < (n::nat)" and "k < (len + n - 1) div n"
  shows "k * n < len"
proof -
  have "Suc k \<le> (len + n - 1) div n" using assms(2) by simp
  then have "Suc k * n \<le> ((len + n - 1) div n) * n"
    by (rule mult_le_mono1)
  also have "\<dots> \<le> len + n - 1" by simp
  finally have "k * n + n \<le> len + n - 1" by simp
  with assms(1) show ?thesis by linarith
qed

lemma chunks_pos:
  assumes "1 \<le> n"
  shows "chunks l n =
    Inr (map (\<lambda>k. take (nat n) (drop (k * nat n) l)) [0 ..< (length l + nat n - 1) div nat n])"
  using assms by (simp add: chunks_def py_range_step_def py_slice_def comp_def)

text \<open>
  C6. For every list and every chunk size \<open>n \<ge> 1\<close> the batcher returns normally; the
  chunks concatenated give the input back, so they are contiguous, in order and without
  overlap, and nothing is reordered or dropped; the chunk at position \<open>k\<close> is the slice
  that starts at \<open>k * n\<close>; every chunk but the last has length exactly \<open>n\<close>, the last is
  not empty and not longer than \<open>n\<close>; the empty list gives no chunk.
\<close>

theorem chunks_partition:
  assumes "1 \<le> n"
  shows "\<exists>cs. chunks l n = Inr cs
           \<and> concat cs = l
           \<and> (\<forall>k < length cs. cs ! k = take (nat n) (drop (k * nat n) l))
           \<and> (\<forall>k < length cs. Suc k < length cs \<longrightarrow> length (cs ! k) = nat n)
           \<and> (\<forall>c \<in> set cs. c \<noteq> [] \<and> length c \<le> nat n)
           \<and> (l = [] \<longrightarrow> cs = [])"
proof -
  define m where "m = nat n"
  define cnt where "cnt = (length l + m - 1) div m"
  define cs where "cs = map (\<lambda>k. take m (drop (k * m) l)) [0 ..< cnt]"
  have mpos: "0 < m" using assms by (simp add: m_def)
  have eq: "chunks l n = Inr cs"
    using chunks_pos [OF assms, of l] by (simp add: cs_def cnt_def m_def)
  have len: "length cs = cnt" by (simp add: cs_def)
  have "concat cs = take (cnt * m) l"
    unfolding cs_def by (rule concat_slices)
  moreover have "length l \<le> cnt * m"
    unfolding cnt_def by (rule chunk_count_covers [OF mpos])
  ultimately have cat: "concat cs = l" by simp
  have nth: "\<forall>k < length cs. cs ! k = take m (drop (k * m) l)"
    by (simp add: cs_def)
  have full: "\<forall>k < length cs. Suc k < length cs \<longrightarrow> length (cs ! k) = m"
  proof (intro allI impI)
    fix k assume "k < length cs" and "Suc k < length cs"
    then have "Suc k * m < length l"
      using chunk_start_in_range [OF mpos, of "Suc k" "length l"] by (simp add: len cnt_def)
    then have "m \<le> length l - k * m" by simp
    with \<open>k < length cs\<close> show "length (cs ! k) = m" by (simp add: cs_def min_def)
  qed
  have nonempty: "\<forall>c \<in> set cs. c \<noteq> [] \<and> length c \<le> m"
  proof
    fix c assume "c \<in> set cs"
    then obtain k where k: "k < cnt" and c: "c = take m (drop (k * m) l)"
      by (auto simp: cs_def)
    have "k * m < length l"
      using chunk_start_in_range [OF mpos, of k "length l"] k by (simp add: cnt_def)
    with mpos show "c \<noteq> [] \<and> length c \<le> m" by (simp add: c)
  qed
  have "l = [] \<longrightarrow> cs = []" using mpos by (simp add: cs_def cnt_def)
  with eq cat nth full nonempty show ?thesis unfolding m_def by blast
qed

theorem chunks_partition_witness:
  "(1::int) \<le> 2
   \<and> chunks [10, 20, 30, 40, 50 :: nat] 2 = Inr [[10, 20], [30, 40], [50]]
   \<and> (\<exists>cs. chunks [10, 20, 30, 40, 50 :: nat] 2 = Inr cs \<and> concat cs = [10, 20, 30, 40, 50])"
proof -
  have h: "(1::int) \<le> 2" by simp
  have v: "chunks [10, 20, 30, 40, 50 :: nat] 2 = Inr [[10, 20], [30, 40], [50]]"
    by (simp add: chunks_def py_range_step_def py_slice_def upt_rec)
  from chunks_partition [OF h, of "[10, 20, 30, 40, 50 :: nat]"]
  obtain cs where "chunks [10, 20, 30, 40, 50 :: nat] 2 = Inr cs"
    and "concat cs = [10, 20, 30, 40, 50]" by blast
  with h v show ?thesis by blast
qed

section \<open>Properties of the reconciler\<close>

lemma length_deactivate_by_tokens [simp]:
  "length (deactivate_by_tokens ids reg) = length reg"
  by (simp add: deactivate_by_tokens_def)

lemma length_cm_handle_canonical_id [simp]:
  "length (cm_handle_canonical_id c t reg) = length reg"
  by (simp add: cm_handle_canonical_id_def deactivate_by_token_def rename_token_def)

lemma length_apply_canonical_ids [simp]:
  "length (apply_canonical_ids ps reg) = length reg"
  by (induction ps reg rule: apply_canonical_ids.induct) simp_all

lemma deactivate_by_tokens_Nil [simp]: "deactivate_by_tokens [] reg = reg"
  by (simp add: deactivate_by_tokens_def)

lemma exists_active_iff:
  "exists_active t reg \<longleftrightarrow> (\<exists>d \<in> set reg. registration_id d = t \<and> active d)"
  by (simp add: exists_active_def list_ex_iff)





text \<open>
  The loop over a results array of dictionaries that is not longer than the token list
  never raises; it collects the marked tokens, the rename pairs and the verdict.
\<close>

lemma scan_result_aligned:
  assumes "i < length ids"
  shows "scan_result ids i (JObj r) st =
    Inr \<lparr>ids_to_remove = ids_to_remove st @ marked_tokens [ids ! i] [r],
         old_new_ids = old_new_ids st @ rename_pairs [ids ! i] [r],
         throw_error = (throw_error st \<or> rejected [r])\<rparr>"
  using assms
  by (cases st)
     (simp add: scan_result_def py_index_def marked_tokens_def rename_pairs_def rejected_def
        result_error_def result_new_id_def terminal_error_def other_error_def)

lemma marked_tokens_Cons:
  "marked_tokens (t # ts) (r # rs) = marked_tokens [t] [r] @ marked_tokens ts rs"
  by (simp add: marked_tokens_def)

lemma rename_pairs_Cons:
  "rename_pairs (t # ts) (r # rs) = rename_pairs [t] [r] @ rename_pairs ts rs"
  by (simp add: rename_pairs_def)

lemma rejected_Cons: "rejected (r # rs) \<longleftrightarrow> rejected [r] \<or> rejected rs"
  by (simp add: rejected_def)

lemma scan_results_aligned:
  assumes "i + length rs \<le> length ids"
  shows "scan_results ids (map JObj rs) i st =
    Inr \<lparr>ids_to_remove = ids_to_remove st @ marked_tokens (drop i ids) rs,
         old_new_ids = old_new_ids st @ rename_pairs (drop i ids) rs,
         throw_error = (throw_error st \<or> rejected rs)\<rparr>"
  using assms
proof (induction rs arbitrary: i st)
  case Nil
  show ?case by (simp add: marked_tokens_def rename_pairs_def rejected_def)
next
  case (Cons r rs)
  have i: "i < length ids" using Cons.prems by simp
  have d: "drop i ids = ids ! i # drop (Suc i) ids"
    using i by (simp add: Cons_nth_drop_Suc)
  have rest: "Suc i + length rs \<le> length ids" using Cons.prems by simp
  show ?case
    by (simp add: scan_result_aligned [OF i] Cons.IH [OF rest] d
        marked_tokens_Cons [of "ids ! i" "drop (Suc i) ids" r rs]
        rename_pairs_Cons [of "ids ! i" "drop (Suc i) ids" r rs]
        rejected_Cons [of r rs] disj_assoc)
qed

lemma cm_handle_response_aligned:
  assumes gate: "py_truthy (dict_get kvs ''failure'') \<or> py_truthy (dict_get kvs ''canonical_ids'')"
    and res: "map_of kvs ''results'' = Some (JList (map JObj rs))"
    and len: "length rs \<le> length ids"
  shows "cm_handle_response ids (JObj kvs) reg =
    (if rejected rs then Inl (GCMError (JObj kvs)) else Inr (JObj kvs),
     apply_canonical_ids (rename_pairs ids rs) (deactivate_by_tokens (marked_tokens ids rs) reg))"
proof -
  have sc: "scan_results ids (map JObj rs) 0
              \<lparr>ids_to_remove = [], old_new_ids = [], throw_error = False\<rparr> =
            Inr \<lparr>ids_to_remove = marked_tokens ids rs, old_new_ids = rename_pairs ids rs,
                 throw_error = rejected rs\<rparr>"
    using scan_results_aligned [of 0 rs ids] len by simp
  show ?thesis
    using gate by (simp add: cm_handle_response_def res sc Let_def)
qed




text \<open>
  C10. When the top-level fields \<^verbatim>\<open>failure\<close> and \<^verbatim>\<open>canonical_ids\<close> of a
  response are both absent, zero or otherwise falsy, the reconciler returns the response
  unchanged, leaves the registry as it is and raises nothing, whatever the entries of the
  results array carry and whatever the token list is.
\<close>

theorem cm_handle_response_gate_closed:
  assumes "\<not> py_truthy (dict_get kvs ''failure'')"
    and "\<not> py_truthy (dict_get kvs ''canonical_ids'')"
  shows "cm_handle_response ids (JObj kvs) reg = (Inr (JObj kvs), reg)"
  using assms by (simp add: cm_handle_response_def)

theorem cm_handle_response_gate_closed_witness:
  "\<not> py_truthy (dict_get [(''failure'', JInt 0), (''canonical_ids'', JInt 0),
        (''results'', JList [JObj [(''error'', JStr ''Unavailable''),
                                    (''registration_id'', JStr ''B'')]])] ''failure'')
   \<and> \<not> py_truthy (dict_get [(''failure'', JInt 0), (''canonical_ids'', JInt 0),
        (''results'', JList [JObj [(''error'', JStr ''Unavailable''),
                                    (''registration_id'', JStr ''B'')]])] ''canonical_ids'')
   \<and> cm_handle_response [JStr ''A'']
        (sample_response 0 0 [[(''error'', JStr ''Unavailable''), (''registration_id'', JStr ''B'')]])
        [sample_device ''A'' True]
      = (Inr (sample_response 0 0
               [[(''error'', JStr ''Unavailable''), (''registration_id'', JStr ''B'')]]),
         [sample_device ''A'' True])"
  using cm_handle_response_gate_closed
    [of "[(''failure'', JInt 0), (''canonical_ids'', JInt 0),
          (''results'', JList [JObj [(''error'', JStr ''Unavailable''),
                                      (''registration_id'', JStr ''B'')]])]"
        "[JStr ''A'']" "[sample_device ''A'' True]"]
  by (simp add: dict_get_def)




section \<open>Rename pairs, misaligned results\<close>


lemma apply_canonical_ids_foldl:
  "apply_canonical_ids ps reg = foldl (\<lambda>g p. cm_handle_canonical_id (snd p) (fst p) g) reg ps"
  by (induction ps reg rule: apply_canonical_ids.induct) simp_all

lemma zip_by_index:
  "zip xs ys = map (\<lambda>i. (xs ! i, ys ! i)) [0 ..< min (length xs) (length ys)]"
  by (rule nth_equalityI) simp_all

lemma rename_pairs_by_index:
  assumes "length rs \<le> length ids"
  shows "rename_pairs ids rs =
    map (\<lambda>i. (ids ! i, result_new_id (rs ! i)))
      (filter (\<lambda>i. py_truthy (result_new_id (rs ! i))) [0 ..< length rs])"
  using assms by (simp add: rename_pairs_def zip_by_index filter_map comp_def min_def)

lemma nth_cm_handle_canonical_id:
  assumes "j < length g"
  shows "cm_handle_canonical_id c t g ! j =
    (if registration_id (g ! j) = t
     then (if exists_active c g then (g ! j)\<lparr>active := False\<rparr>
           else (g ! j)\<lparr>registration_id := c\<rparr>)
     else g ! j)"
  using assms by (simp add: cm_handle_canonical_id_def deactivate_by_token_def rename_token_def)

lemma scan_result_beyond:
  assumes "\<not> i < length ids"
  shows "scan_result ids i (JObj r) st =
    (if needs_token r then Inl IndexError
     else Inr (st\<lparr>throw_error := (throw_error st \<or> other_error (result_error r))\<rparr>))"
  using assms
  by (cases st)
     (auto simp add: scan_result_def py_index_def needs_token_def
        result_error_def result_new_id_def terminal_error_def other_error_def)

lemma scan_result_object:
  "scan_result ids i (JObj r) st = Inl IndexError \<or> (\<exists>st'. scan_result ids i (JObj r) st = Inr st')"
  by (cases "i < length ids") (simp_all add: scan_result_aligned scan_result_beyond)

lemma scan_results_beyond:
  assumes "\<exists>k < length rs. length ids \<le> i + k \<and> needs_token (rs ! k)"
  shows "scan_results ids (map JObj rs) i st = Inl IndexError"
  using assms
proof (induction rs arbitrary: i st)
  case Nil
  then show ?case by simp
next
  case (Cons r rs)
  then obtain k where k: "k < length (r # rs)" "length ids \<le> i + k" "needs_token ((r # rs) ! k)"
    by blast
  show ?case
  proof (cases "scan_result ids i (JObj r) st")
    case (Inl e)
    with scan_result_object [of ids i r st] show ?thesis by simp
  next
    case (Inr st1)
    have "k \<noteq> 0"
    proof
      assume "k = 0"
      with k have "\<not> i < length ids" "needs_token r" by simp_all
      with Inr show False by (simp add: scan_result_beyond)
    qed
    then obtain k' where k': "k = Suc k'" by (cases k) simp_all
    with k have "\<exists>k < length rs. length ids \<le> Suc i + k \<and> needs_token (rs ! k)"
      by auto
    from Cons.IH [OF this] Inr show ?thesis by simp
  qed
qed

lemma zip_take_left: "zip (take (length ys) xs) ys = zip xs ys"
  by (simp add: zip_by_index min_def)

text \<open>
  C3, as the code has it. Behind the gate and for a results array of dictionaries that is
  not longer than the token list, the registry the reconciler leaves is the fold of the
  resolution step over the rename pairs, from the registry after the batch deactivation;
  the pairs are those of the indices with a truthy replacement id, in increasing index
  order. One step keeps every row at its position: when an active row with the canonical id
  exists, each row with the old token is deactivated; otherwise each row with the old token
  gets the canonical id as its token, its active flag and other fields unchanged; every
  other row is left as it is. So the rows with the canonical id are untouched whenever the
  canonical id differs from the old token.
\<close>

theorem canonical_id_resolution:
  assumes gate: "py_truthy (dict_get kvs ''failure'') \<or> py_truthy (dict_get kvs ''canonical_ids'')"
    and res: "map_of kvs ''results'' = Some (JList (map JObj rs))"
    and len: "length rs \<le> length ids"
  shows "snd (cm_handle_response ids (JObj kvs) reg) =
           foldl (\<lambda>g p. cm_handle_canonical_id (snd p) (fst p) g)
             (deactivate_by_tokens (marked_tokens ids rs) reg) (rename_pairs ids rs)
       \<and> rename_pairs ids rs =
           map (\<lambda>i. (ids ! i, result_new_id (rs ! i)))
             (filter (\<lambda>i. py_truthy (result_new_id (rs ! i))) [0 ..< length rs])
       \<and> (\<forall>c t g. length (cm_handle_canonical_id c t g) = length g
             \<and> (\<forall>j < length g.
                   cm_handle_canonical_id c t g ! j =
                     (if registration_id (g ! j) = t
                      then (if (\<exists>d \<in> set g. registration_id d = c \<and> active d)
                            then (g ! j)\<lparr>active := False\<rparr>
                            else (g ! j)\<lparr>registration_id := c\<rparr>)
                      else g ! j))
             \<and> (c \<noteq> t \<longrightarrow> (\<forall>j < length g. registration_id (g ! j) = c \<longrightarrow>
                   cm_handle_canonical_id c t g ! j = g ! j)))"
proof -
  have "snd (cm_handle_response ids (JObj kvs) reg) =
      apply_canonical_ids (rename_pairs ids rs) (deactivate_by_tokens (marked_tokens ids rs) reg)"
    by (simp add: cm_handle_response_aligned [OF gate res len])
  then have order: "snd (cm_handle_response ids (JObj kvs) reg) =
           foldl (\<lambda>g p. cm_handle_canonical_id (snd p) (fst p) g)
             (deactivate_by_tokens (marked_tokens ids rs) reg) (rename_pairs ids rs)"
    by (simp add: apply_canonical_ids_foldl)
  have rule: "length (cm_handle_canonical_id c t g) = length g
             \<and> (\<forall>j < length g.
                   cm_handle_canonical_id c t g ! j =
                     (if registration_id (g ! j) = t
                      then (if (\<exists>d \<in> set g. registration_id d = c \<and> active d)
                            then (g ! j)\<lparr>active := False\<rparr>
                            else (g ! j)\<lparr>registration_id := c\<rparr>)
                      else g ! j))
             \<and> (c \<noteq> t \<longrightarrow> (\<forall>j < length g. registration_id (g ! j) = c \<longrightarrow>
                   cm_handle_canonical_id c t g ! j = g ! j))" for c t g
    by (simp add: nth_cm_handle_canonical_id exists_active_iff)
  from order rename_pairs_by_index [OF len] rule show ?thesis by blast
qed

theorem canonical_id_resolution_witness:
  "py_truthy (dict_get [(''failure'', JInt 0), (''canonical_ids'', JInt 2),
        (''results'', JList (map JObj [[(''registration_id'', JStr ''B'')],
            [(''registration_id'', JStr ''D'')]]))] ''canonical_ids'')
   \<and> length [[(''registration_id'', JStr ''B'')], [(''registration_id'', JStr ''D'')]]
       \<le> length [JStr ''A'', JStr ''C'']
   \<and> rename_pairs [JStr ''A'', JStr ''C'']
        [[(''registration_id'', JStr ''B'')], [(''registration_id'', JStr ''D'')]]
      = [(JStr ''A'', JStr ''B''), (JStr ''C'', JStr ''D'')]
   \<and> snd (cm_handle_response [JStr ''A'', JStr ''C'']
        (sample_response 0 2 [[(''registration_id'', JStr ''B'')],
            [(''registration_id'', JStr ''D'')]])
        [sample_device ''A'' True, sample_device ''B'' True, sample_device ''C'' True])
      = [sample_device ''A'' False, sample_device ''B'' True, sample_device ''D'' True]"
  using canonical_id_resolution
    [of "[(''failure'', JInt 0), (''canonical_ids'', JInt 2),
          (''results'', JList (map JObj [[(''registration_id'', JStr ''B'')],
              [(''registration_id'', JStr ''D'')]]))]"
        "[[(''registration_id'', JStr ''B'')], [(''registration_id'', JStr ''D'')]]"
        "[JStr ''A'', JStr ''C'']"
        "[sample_device ''A'' True, sample_device ''B'' True, sample_device ''C'' True]"]
  by (simp add: dict_get_def cm_handle_response_def scan_result_def py_index_def
      deactivate_by_tokens_def cm_handle_canonical_id_def exists_active_def
      deactivate_by_token_def rename_token_def rename_pairs_def result_new_id_def)

text \<open>
  Where C3 fails as stated: a replacement id equal to the token it replaces. The active
  row with the canonical id is the row with the old token, and it is deactivated.
\<close>

theorem canonical_id_resolution_counterexample:
  "exists_active (JStr ''A'') [sample_device ''A'' True]
   \<and> cm_handle_canonical_id (JStr ''A'') (JStr ''A'') [sample_device ''A'' True]
      = [sample_device ''A'' False]
   \<and> cm_handle_response [JStr ''A'']
        (sample_response 0 1 [[(''registration_id'', JStr ''A'')]])
        [sample_device ''A'' True]
      = (Inr (sample_response 0 1 [[(''registration_id'', JStr ''A'')]]),
         [sample_device ''A'' False])"
  by (simp add: dict_get_def cm_handle_response_def scan_result_def py_index_def
      cm_handle_canonical_id_def exists_active_def deactivate_by_token_def rename_token_def)

text \<open>
  C5, as the code has it. The reconciler has no length check and no error of its own for a
  malformed response. Behind the gate: a response without a results array raises
  \<^verbatim>\<open>KeyError\<close> and leaves the registry as it is; a results array of dictionaries
  shorter than the token list is reconciled without any error of misalignment, exactly as
  against the leading tokens; a results array with an entry beyond the end of the token
  list that carries a terminal code or a replacement id raises \<^verbatim>\<open>IndexError\<close> and
  leaves the registry as it is.
\<close>

theorem cm_handle_response_misaligned:
  assumes gate: "py_truthy (dict_get kvs ''failure'') \<or> py_truthy (dict_get kvs ''canonical_ids'')"
  shows "(map_of kvs ''results'' = None \<longrightarrow>
            cm_handle_response ids (JObj kvs) reg = (Inl KeyError, reg))
       \<and> (map_of kvs ''results'' = Some (JList (map JObj rs)) \<longrightarrow>
            length rs < length ids \<longrightarrow>
            cm_handle_response ids (JObj kvs) reg =
              cm_handle_response (take (length rs) ids) (JObj kvs) reg
            \<and> fst (cm_handle_response ids (JObj kvs) reg) =
                (if rejected rs then Inl (GCMError (JObj kvs)) else Inr (JObj kvs)))
       \<and> (map_of kvs ''results'' = Some (JList (map JObj rs)) \<longrightarrow>
            (\<exists>i < length rs. length ids \<le> i \<and> needs_token (rs ! i)) \<longrightarrow>
            cm_handle_response ids (JObj kvs) reg = (Inl IndexError, reg))"
proof -
  have missing: "cm_handle_response ids (JObj kvs) reg = (Inl KeyError, reg)"
    if "map_of kvs ''results'' = None"
    using gate that by (simp add: cm_handle_response_def)
  have shorter: "cm_handle_response ids (JObj kvs) reg =
              cm_handle_response (take (length rs) ids) (JObj kvs) reg
            \<and> fst (cm_handle_response ids (JObj kvs) reg) =
                (if rejected rs then Inl (GCMError (JObj kvs)) else Inr (JObj kvs))"
    if res: "map_of kvs ''results'' = Some (JList (map JObj rs))" and len: "length rs < length ids"
    for rs
  proof -
    have l1: "length rs \<le> length ids" and l2: "length rs \<le> length (take (length rs) ids)"
      using len by simp_all
    show ?thesis
      by (simp add: cm_handle_response_aligned [OF gate res l1]
          cm_handle_response_aligned [OF gate res l2]
          marked_tokens_def rename_pairs_def zip_take_left)
  qed
  have longer: "cm_handle_response ids (JObj kvs) reg = (Inl IndexError, reg)"
    if res: "map_of kvs ''results'' = Some (JList (map JObj rs))"
      and ex: "\<exists>i < length rs. length ids \<le> i \<and> needs_token (rs ! i)" for rs
  proof -
    have "scan_results ids (map JObj rs) 0
            \<lparr>ids_to_remove = [], old_new_ids = [], throw_error = False\<rparr> = Inl IndexError"
      using ex by (intro scan_results_beyond) simp
    then show ?thesis
      using gate by (simp add: cm_handle_response_def res)
  qed
  from missing shorter longer show ?thesis by blast
qed

theorem cm_handle_response_misaligned_witness:
  "py_truthy (dict_get [(''failure'', JInt 1)] ''failure'')
   \<and> map_of [(''failure'', JInt 1)] ''results'' = None
   \<and> cm_handle_response [JStr ''A''] (JObj [(''failure'', JInt 1)]) [sample_device ''A'' True]
      = (Inl KeyError, [sample_device ''A'' True])
   \<and> length [[(''error'', JStr ''NotRegistered'')]] < length [JStr ''A'', JStr ''B'']
   \<and> cm_handle_response [JStr ''A'', JStr ''B'']
        (sample_response 1 0 [[(''error'', JStr ''NotRegistered'')]])
        [sample_device ''A'' True, sample_device ''B'' True]
      = cm_handle_response (take 1 [JStr ''A'', JStr ''B''])
        (sample_response 1 0 [[(''error'', JStr ''NotRegistered'')]])
        [sample_device ''A'' True, sample_device ''B'' True]
   \<and> needs_token ([[], [(''error'', JStr ''NotRegistered'')]] ! 1)
   \<and> cm_handle_response [JStr ''A'']
        (sample_response 1 0 [[], [(''error'', JStr ''NotRegistered'')]])
        [sample_device ''A'' True]
      = (Inl IndexError, [sample_device ''A'' True])"
proof -
  have g: "py_truthy (dict_get kvs ''failure'') \<or> py_truthy (dict_get kvs ''canonical_ids'')"
    if "map_of kvs ''failure'' = Some (JInt 1)" for kvs
    using that by (simp add: dict_get_def)
  have n: "needs_token [(''error'', JStr ''NotRegistered'')]"
    by (simp add: needs_token_def terminal_error_def result_error_def dict_get_def)
  have a: "cm_handle_response [JStr ''A''] (JObj [(''failure'', JInt 1)])
             [sample_device ''A'' True] = (Inl KeyError, [sample_device ''A'' True])"
    using cm_handle_response_misaligned
      [OF g, of "[(''failure'', JInt 1)]" "[JStr ''A'']" "[sample_device ''A'' True]"]
    by simp
  have b: "cm_handle_response [JStr ''A'', JStr ''B'']
        (sample_response 1 0 [[(''error'', JStr ''NotRegistered'')]])
        [sample_device ''A'' True, sample_device ''B'' True]
      = cm_handle_response (take 1 [JStr ''A'', JStr ''B''])
        (sample_response 1 0 [[(''error'', JStr ''NotRegistered'')]])
        [sample_device ''A'' True, sample_device ''B'' True]"
    using cm_handle_response_misaligned
      [OF g, of "[(''failure'', JInt 1), (''canonical_ids'', JInt 0),
            (''results'', JList (map JObj [[(''error'', JStr ''NotRegistered'')]]))]"
          "[JStr ''A'', JStr ''B'']" "[sample_device ''A'' True, sample_device ''B'' True]"
          "[[(''error'', JStr ''NotRegistered'')]]"]
    by simp
  have c: "cm_handle_response [JStr ''A'']
        (sample_response 1 0 [[], [(''error'', JStr ''NotRegistered'')]])
        [sample_device ''A'' True]
      = (Inl IndexError, [sample_device ''A'' True])"
    using cm_handle_response_misaligned
      [OF g, of "[(''failure'', JInt 1), (''canonical_ids'', JInt 0),
            (''results'', JList (map JObj [[], [(''error'', JStr ''NotRegistered'')]]))]"
          "[JStr ''A'']" "[sample_device ''A'' True]"
          "[[], [(''error'', JStr ''NotRegistered'')]]"] n
    by (auto simp: nth_Cons')
  show ?thesis
    using a b c n by (simp add: dict_get_def)
qed

text \<open>
  Where C5 fails as stated: two tokens, one result. No error is raised, and the first
  token is deactivated on the strength of the only entry.
\<close>

theorem cm_handle_response_misaligned_counterexample:
  "length [[(''error'', JStr ''NotRegistered'')]] \<noteq> length [JStr ''A'', JStr ''B'']
   \<and> cm_handle_response [JStr ''A'', JStr ''B'']
        (sample_response 1 0 [[(''error'', JStr ''NotRegistered'')]])
        [sample_device ''A'' True, sample_device ''B'' True]
      = (Inr (sample_response 1 0 [[(''error'', JStr ''NotRegistered'')]]),
         [sample_device ''A'' False, sample_device ''B'' True])"
  by (simp add: dict_get_def cm_handle_response_def scan_result_def py_index_def
      deactivate_by_tokens_def)

section \<open>Reconciling the same response again\<close>

lemma settled_iff:
  "settled reg p \<longleftrightarrow>
     (\<forall>d \<in> set reg. registration_id d \<noteq> fst p)
     \<or> ((\<exists>d \<in> set reg. registration_id d = snd p \<and> active d)
         \<and> (\<forall>d \<in> set reg. registration_id d = fst p \<longrightarrow> \<not> active d))"
  by (simp add: settled_def list_all_iff exists_active_iff)

lemma settled_step_id:
  assumes "settled reg (t, c)" and "t \<noteq> c"
  shows "cm_handle_canonical_id c t reg = reg"
proof -
  have "map (\<lambda>d. if registration_id d = t then d\<lparr>active := False\<rparr> else d) reg = reg"
    if "\<forall>d \<in> set reg. registration_id d = t \<longrightarrow> \<not> active d"
    using that by (intro map_idI) auto
  moreover have "map (\<lambda>d. if registration_id d = t then f d else d) reg = reg"
    if "\<forall>d \<in> set reg. registration_id d \<noteq> t" for f
    using that by (intro map_idI) auto
  ultimately show ?thesis
    using assms
    by (auto simp: settled_iff cm_handle_canonical_id_def exists_active_iff
        deactivate_by_token_def rename_token_def)
qed

lemma deactivate_by_token_inactive:
  "list_all (\<lambda>d. registration_id d = t \<longrightarrow> \<not> active d) (deactivate_by_token t reg)"
  by (induction reg) (simp_all add: deactivate_by_token_def)

lemma deactivate_by_token_keeps:
  assumes "d \<in> set reg" and "registration_id d \<noteq> t"
  shows "d \<in> set (deactivate_by_token t reg)"
  using assms by (force simp: deactivate_by_token_def)

lemma rename_token_removes:
  assumes "t \<noteq> c"
  shows "list_all (\<lambda>d. registration_id d \<noteq> t) (rename_token t c reg)"
  using assms by (induction reg) (simp_all add: rename_token_def)

lemma step_settles:
  assumes "t \<noteq> c"
  shows "settled (cm_handle_canonical_id c t reg) (t, c)"
proof (cases "exists_active c reg")
  case True
  then obtain d where d: "d \<in> set reg" "registration_id d = c" "active d"
    by (auto simp: exists_active_iff)
  have "d \<in> set (deactivate_by_token t reg)"
    using d(1,2) assms by (intro deactivate_by_token_keeps) simp_all
  with d(2,3) have "exists_active c (deactivate_by_token t reg)"
    unfolding exists_active_iff by blast
  with True deactivate_by_token_inactive [of t reg] show ?thesis
    by (simp add: settled_def cm_handle_canonical_id_def)
next
  case False
  with rename_token_removes [OF assms, of reg] show ?thesis
    by (simp add: settled_def cm_handle_canonical_id_def)
qed

lemma step_keeps_settled:
  assumes "settled reg (t, c)" and "c' \<noteq> t" and "t' \<noteq> c"
  shows "settled (cm_handle_canonical_id c' t' reg) (t, c)"
  using assms
  by (auto simp: settled_iff cm_handle_canonical_id_def exists_active_iff
      deactivate_by_token_def rename_token_def)

lemma apply_keeps_settled:
  assumes "settled reg p"
    and "\<forall>q \<in> set qs. snd q \<noteq> fst p \<and> fst q \<noteq> snd p"
  shows "settled (apply_canonical_ids qs reg) p"
  using assms
proof (induction qs reg rule: apply_canonical_ids.induct)
  case (1 reg)
  then show ?case by simp
next
  case (2 old_id new_id rest reg)
  have "settled (cm_handle_canonical_id new_id old_id reg) p"
    using 2(2,3) step_keeps_settled [of reg "fst p" "snd p" new_id old_id] by simp
  with 2 show ?case by simp
qed

lemma apply_settles_all:
  assumes "snd ` set ps \<inter> fst ` set ps = {}"
  shows "\<forall>p \<in> set ps. settled (apply_canonical_ids ps reg) p"
  using assms
proof (induction ps reg rule: apply_canonical_ids.induct)
  case (1 reg)
  show ?case by simp
next
  case (2 old_id new_id rest reg)
  let ?reg = "cm_handle_canonical_id new_id old_id reg"
  have ne: "old_id \<noteq> new_id" using 2(2) by auto
  have others: "\<forall>q \<in> set rest. snd q \<noteq> old_id \<and> fst q \<noteq> new_id"
    using 2(2) by (auto simp: disjoint_iff image_iff) 
  have first: "settled (apply_canonical_ids rest ?reg) (old_id, new_id)"
    using step_settles [OF ne] others by (intro apply_keeps_settled) simp_all
  have "snd ` set rest \<inter> fst ` set rest = {}" using 2(2) by auto
  from 2(1) [OF this] first show ?case by simp
qed

lemma apply_settled_id:
  assumes "\<forall>p \<in> set ps. settled reg p" and "\<forall>p \<in> set ps. fst p \<noteq> snd p"
  shows "apply_canonical_ids ps reg = reg"
  using assms
proof (induction ps reg rule: apply_canonical_ids.induct)
  case (1 reg)
  show ?case by simp
next
  case (2 old_id new_id rest reg)
  have "cm_handle_canonical_id new_id old_id reg = reg"
    using 2(2,3) by (intro settled_step_id) simp_all
  with 2 show ?case by simp
qed

lemma step_keeps_inactive_tokens:
  assumes "\<forall>d \<in> set reg. registration_id d \<in> R \<longrightarrow> \<not> active d" and "c \<notin> R"
  shows "\<forall>d \<in> set (cm_handle_canonical_id c t reg). registration_id d \<in> R \<longrightarrow> \<not> active d"
  using assms
  by (auto simp: cm_handle_canonical_id_def deactivate_by_token_def rename_token_def)

lemma apply_keeps_inactive_tokens:
  assumes "\<forall>d \<in> set reg. registration_id d \<in> R \<longrightarrow> \<not> active d" and "snd ` set ps \<inter> R = {}"
  shows "\<forall>d \<in> set (apply_canonical_ids ps reg). registration_id d \<in> R \<longrightarrow> \<not> active d"
  using assms
proof (induction ps reg rule: apply_canonical_ids.induct)
  case (1 reg)
  then show ?case by simp
next
  case (2 old_id new_id rest reg)
  have "\<forall>d \<in> set (cm_handle_canonical_id new_id old_id reg). registration_id d \<in> R \<longrightarrow> \<not> active d"
    using 2(2,3) by (intro step_keeps_inactive_tokens) auto
  moreover have "snd ` set rest \<inter> R = {}" using 2(3) by auto
  ultimately show ?case using 2(1) by simp
qed

lemma deactivate_inactive_id:
  assumes "\<forall>d \<in> set reg. registration_id d \<in> set ts \<longrightarrow> \<not> active d"
  shows "deactivate_by_tokens ts reg = reg"
  unfolding deactivate_by_tokens_def using assms by (intro map_idI) auto

lemma deactivate_by_tokens_inactive:
  "\<forall>d \<in> set (deactivate_by_tokens ts reg). registration_id d \<in> set ts \<longrightarrow> \<not> active d"
  by (auto simp: deactivate_by_tokens_def)

lemma reconcile_twice:
  assumes "snd ` set ps \<inter> (fst ` set ps \<union> set ts) = {}"
  shows "apply_canonical_ids ps (deactivate_by_tokens ts
           (apply_canonical_ids ps (deactivate_by_tokens ts reg)))
         = apply_canonical_ids ps (deactivate_by_tokens ts reg)"
proof -
  let ?once = "apply_canonical_ids ps (deactivate_by_tokens ts reg)"
  have d1: "snd ` set ps \<inter> set ts = {}" and d2: "snd ` set ps \<inter> fst ` set ps = {}"
    using assms by auto
  have "\<forall>d \<in> set ?once. registration_id d \<in> set ts \<longrightarrow> \<not> active d"
    using deactivate_by_tokens_inactive d1 by (intro apply_keeps_inactive_tokens) 
  then have a: "deactivate_by_tokens ts ?once = ?once" by (rule deactivate_inactive_id)
  have "\<forall>p \<in> set ps. fst p \<noteq> snd p" using d2 by (auto simp: disjoint_iff image_iff)
  with apply_settles_all [OF d2, of "deactivate_by_tokens ts reg"]
  have "apply_canonical_ids ps ?once = ?once" by (intro apply_settled_id)
  with a show ?thesis by simp
qed

lemma fst_in_image: "(a, b) \<in> set xs \<Longrightarrow> a \<in> fst ` set xs"
  by force

lemma scan_result_bounds:
  assumes "scan_result ids i result st = Inr st'"
  shows "set (ids_to_remove st') \<subseteq> set (ids_to_remove st) \<union> set ids"
    and "fst ` set (old_new_ids st') \<subseteq> fst ` set (old_new_ids st) \<union> set ids"
    and "snd ` set (old_new_ids st') \<subseteq> snd ` set (old_new_ids st) \<union>
           set (filter py_truthy
                 [case py_get result ''registration_id'' of Inl e \<Rightarrow> JNull | Inr v \<Rightarrow> v])"
  using assms
  by (auto simp: scan_result_def py_index_def fst_in_image split: sum.splits if_splits)

lemma scan_results_Cons_Inr:
  assumes "scan_results ids (r # rs) i st = Inr st'"
  shows "\<exists>st1. scan_result ids i r st = Inr st1 \<and> scan_results ids rs (Suc i) st1 = Inr st'"
proof (cases "scan_result ids i r st")
  case (Inl e)
  with assms show ?thesis by simp
next
  case (Inr st1)
  with assms show ?thesis by simp
qed

lemma subset_chain: "A \<subseteq> B \<union> I \<Longrightarrow> B \<subseteq> C \<union> I \<Longrightarrow> A \<subseteq> C \<union> (I::'a set)"
  by blast

lemma subset_chain2: "A \<subseteq> B \<union> N \<Longrightarrow> B \<subseteq> C \<union> M \<Longrightarrow> A \<subseteq> C \<union> (M \<union> (N::'a set))"
  by blast

lemma scan_results_bounds:
  assumes "scan_results ids rs i st = Inr st'"
  shows "set (ids_to_remove st') \<subseteq> set (ids_to_remove st) \<union> set ids
       \<and> fst ` set (old_new_ids st') \<subseteq> fst ` set (old_new_ids st) \<union> set ids
       \<and> snd ` set (old_new_ids st') \<subseteq> snd ` set (old_new_ids st) \<union>
           set (filter py_truthy
                 (map (\<lambda>r. case py_get r ''registration_id'' of Inl e \<Rightarrow> JNull | Inr v \<Rightarrow> v) rs))"
  using assms
proof (induction rs arbitrary: i st)
  case Nil
  then show ?case by simp
next
  case (Cons r rs)
  let ?new = "\<lambda>r. case py_get r ''registration_id'' of Inl e \<Rightarrow> JNull | Inr v \<Rightarrow> v"
  from scan_results_Cons_Inr [OF Cons.prems] obtain st1 where
    one: "scan_result ids i r st = Inr st1" and rest: "scan_results ids rs (Suc i) st1 = Inr st'"
    by blast
  note ih = Cons.IH [OF rest]
  have a: "set (ids_to_remove st') \<subseteq> set (ids_to_remove st) \<union> set ids"
    by (rule subset_chain [OF ih [THEN conjunct1] scan_result_bounds(1) [OF one]])
  have b: "fst ` set (old_new_ids st') \<subseteq> fst ` set (old_new_ids st) \<union> set ids"
    by (rule subset_chain [OF ih [THEN conjunct2, THEN conjunct1] scan_result_bounds(2) [OF one]])
  have c0: "snd ` set (old_new_ids st') \<subseteq> snd ` set (old_new_ids st) \<union>
      (set (filter py_truthy [?new r]) \<union> set (filter py_truthy (map ?new rs)))"
    by (rule subset_chain2 [OF ih [THEN conjunct2, THEN conjunct2] scan_result_bounds(3) [OF one]])
  have split: "set (filter py_truthy (map ?new (r # rs)))
      = set (filter py_truthy [?new r]) \<union> set (filter py_truthy (map ?new rs))"
    by (simp only: list.map filter_append [symmetric] set_append [symmetric] append_Cons append_Nil)
  have c: "snd ` set (old_new_ids st') \<subseteq> snd ` set (old_new_ids st) \<union>
      set (filter py_truthy (map ?new (r # rs)))"
    unfolding split by (rule c0)
  show ?case
    by (intro conjI a b c)
qed

lemma cm_handle_response_plan:
  "\<exists>ts ps. set ts \<subseteq> set ids \<and> fst ` set ps \<subseteq> set ids
      \<and> snd ` set ps \<subseteq> set (replacement_ids response)
      \<and> (\<forall>reg. snd (cm_handle_response ids response reg) =
            apply_canonical_ids ps (deactivate_by_tokens ts reg))"
proof -
  let ?init = "\<lparr>ids_to_remove = [], old_new_ids = [], throw_error = False\<rparr>"
  have plan: ?thesis
    if "set ts \<subseteq> set ids" and "fst ` set ps \<subseteq> set ids"
      and "snd ` set ps \<subseteq> set (replacement_ids response)"
      and "\<And>reg. snd (cm_handle_response ids response reg) =
            apply_canonical_ids ps (deactivate_by_tokens ts reg)" for ts ps
    by (rule exI [where x = ts], rule exI [where x = ps]) (simp add: that)
  have untouched: ?thesis if h: "\<And>reg. snd (cm_handle_response ids response reg) = reg"
  proof (rule plan [where ts = "[]" and ps = "[]"])
    show "set [] \<subseteq> set ids" by simp
    show "fst ` set [] \<subseteq> set ids" by simp
    show "snd ` set [] \<subseteq> set (replacement_ids response)" by simp
    show "snd (cm_handle_response ids response reg) =
            apply_canonical_ids [] (deactivate_by_tokens [] reg)" for reg
      by (simp add: h)
  qed
  show ?thesis
  proof (cases "py_get response ''failure''")
    case (Inl e)
    show ?thesis by (rule untouched) (simp add: cm_handle_response_def Inl)
  next
    case f: (Inr failure)
    show ?thesis
    proof (cases "py_get response ''canonical_ids''")
      case (Inl e)
      show ?thesis by (rule untouched) (simp add: cm_handle_response_def f Inl)
    next
      case c: (Inr canonical)
      show ?thesis
      proof (cases "py_truthy failure \<or> py_truthy canonical")
        case False
        show ?thesis by (rule untouched) (use False in \<open>simp add: cm_handle_response_def f c\<close>)
      next
        case g: True
        show ?thesis
        proof (cases "py_getitem response ''results''")
          case (Inl e)
          show ?thesis by (rule untouched) (use g in \<open>simp add: cm_handle_response_def f c Inl\<close>)
        next
          case r: (Inr results)
          show ?thesis
          proof (cases "py_iter results")
            case (Inl e)
            show ?thesis
              by (rule untouched) (use g in \<open>simp add: cm_handle_response_def f c r Inl\<close>)
          next
            case it: (Inr rs)
            show ?thesis
            proof (cases "scan_results ids rs 0 ?init")
              case (Inl e)
              show ?thesis
                by (rule untouched) (use g in \<open>simp add: cm_handle_response_def f c r it Inl\<close>)
            next
              case sc: (Inr st)
              have reps: "replacement_ids response = filter py_truthy
                  (map (\<lambda>r. case py_get r ''registration_id'' of Inl e \<Rightarrow> JNull | Inr v \<Rightarrow> v) rs)"
                by (simp add: replacement_ids_def r it)
              note bounds = scan_results_bounds [OF sc]
              show ?thesis
              proof (rule plan [where ts = "ids_to_remove st" and ps = "old_new_ids st"])
                show "set (ids_to_remove st) \<subseteq> set ids"
                  using bounds [THEN conjunct1] by simp
                show "fst ` set (old_new_ids st) \<subseteq> set ids"
                  using bounds [THEN conjunct2, THEN conjunct1] by simp
                show "snd ` set (old_new_ids st) \<subseteq> set (replacement_ids response)"
                  using bounds [THEN conjunct2, THEN conjunct2] unfolding reps by simp
                show "snd (cm_handle_response ids response reg) =
                    apply_canonical_ids (old_new_ids st)
                      (deactivate_by_tokens (ids_to_remove st) reg)" for reg
                  using g by (simp add: cm_handle_response_def f c r it sc Let_def)
              qed
            qed
          qed
        qed
      qed
    qed
  qed
qed

lemma rename_token_same: "rename_token c c g = g"
  by (induction g) (simp_all add: rename_token_def)

lemma deactivate_by_token_none_active: "\<not> exists_active c (deactivate_by_token c g)"
  by (induction g) (simp_all add: exists_active_def deactivate_by_token_def)

lemma canonical_id_twice:
  "cm_handle_canonical_id c t (cm_handle_canonical_id c t g) = cm_handle_canonical_id c t g"
proof (cases "t = c")
  case False
  from step_settles [OF False] False show ?thesis by (intro settled_step_id)
next
  case True
  show ?thesis
  proof (cases "exists_active c g")
    case active: True
    with deactivate_by_token_none_active [of c g] rename_token_same show ?thesis
      by (simp add: cm_handle_canonical_id_def \<open>t = c\<close>)
  next
    case False
    with rename_token_same show ?thesis
      by (simp add: cm_handle_canonical_id_def \<open>t = c\<close>)
  qed
qed

lemma deactivate_by_tokens_twice:
  "deactivate_by_tokens ts (deactivate_by_tokens ts g) = deactivate_by_tokens ts g"
  by (intro deactivate_inactive_id deactivate_by_tokens_inactive)

lemma disjoint_plan:
  assumes "N \<inter> I = {}" and "T \<subseteq> I" and "U \<subseteq> I" and "S \<subseteq> (N::'a set)"
  shows "S \<inter> (U \<union> T) = {}"
  using assms by blast

text \<open>
  C9, as the code has it. The batch deactivation is idempotent and so is each resolution
  step taken alone. Reconciling the same response a second time leaves the registry of the
  first reconciliation unchanged whenever no replacement id of the response is itself one
  of the tokens of the chunk; this holds for any registry, token list and response, also
  one the reconciler rejects.
\<close>

theorem reconcile_idempotent:
  assumes "set (replacement_ids response) \<inter> set ids = {}"
  shows "snd (cm_handle_response ids response (snd (cm_handle_response ids response reg)))
           = snd (cm_handle_response ids response reg)
       \<and> (\<forall>ts g. deactivate_by_tokens ts (deactivate_by_tokens ts g) = deactivate_by_tokens ts g)
       \<and> (\<forall>c t g. cm_handle_canonical_id c t (cm_handle_canonical_id c t g)
                     = cm_handle_canonical_id c t g)"
  using cm_handle_response_plan [of ids response]
proof (elim exE conjE)
  fix ts ps
  assume ts: "set ts \<subseteq> set ids" and olds: "fst ` set ps \<subseteq> set ids"
    and news: "snd ` set ps \<subseteq> set (replacement_ids response)"
    and run: "\<forall>reg. snd (cm_handle_response ids response reg) =
            apply_canonical_ids ps (deactivate_by_tokens ts reg)"
  have disj: "snd ` set ps \<inter> (fst ` set ps \<union> set ts) = {}"
    by (rule disjoint_plan [OF assms ts olds news])
  have "snd (cm_handle_response ids response (snd (cm_handle_response ids response reg)))
           = snd (cm_handle_response ids response reg)"
    using reconcile_twice [OF disj, of reg] by (simp only: run [rule_format])
  then show ?thesis
    by (intro conjI allI deactivate_by_tokens_twice canonical_id_twice)
qed

theorem reconcile_idempotent_witness:
  "set (replacement_ids (sample_response 1 1
          [[(''registration_id'', JStr ''NEW'')], [(''error'', JStr ''NotRegistered'')]]))
     \<inter> set [JStr ''A'', JStr ''B''] = {}
   \<and> snd (cm_handle_response [JStr ''A'', JStr ''B'']
          (sample_response 1 1
            [[(''registration_id'', JStr ''NEW'')], [(''error'', JStr ''NotRegistered'')]])
          [sample_device ''A'' True, sample_device ''B'' True])
       = [sample_device ''NEW'' True, sample_device ''B'' False]
   \<and> snd (cm_handle_response [JStr ''A'', JStr ''B'']
          (sample_response 1 1
            [[(''registration_id'', JStr ''NEW'')], [(''error'', JStr ''NotRegistered'')]])
          [sample_device ''NEW'' True, sample_device ''B'' False])
       = [sample_device ''NEW'' True, sample_device ''B'' False]"
proof -
  let ?resp = "sample_response 1 1
            [[(''registration_id'', JStr ''NEW'')], [(''error'', JStr ''NotRegistered'')]]"
  let ?ids = "[JStr ''A'', JStr ''B'']"
  let ?reg = "[sample_device ''A'' True, sample_device ''B'' True]"
  have h: "set (replacement_ids ?resp) \<inter> set ?ids = {}"
    by (simp add: replacement_ids_def dict_get_def)
  have once: "snd (cm_handle_response ?ids ?resp ?reg)
      = [sample_device ''NEW'' True, sample_device ''B'' False]"
    by (simp add: dict_get_def cm_handle_response_def scan_result_def py_index_def
        deactivate_by_tokens_def cm_handle_canonical_id_def exists_active_def
        deactivate_by_token_def rename_token_def)
  from reconcile_idempotent [OF h, THEN conjunct1, of ?reg]
  have "snd (cm_handle_response ?ids ?resp (snd (cm_handle_response ?ids ?resp ?reg)))
      = snd (cm_handle_response ?ids ?resp ?reg)" .
  then have "snd (cm_handle_response ?ids ?resp
        [sample_device ''NEW'' True, sample_device ''B'' False])
      = [sample_device ''NEW'' True, sample_device ''B'' False]"
    by (simp only: once)
  with h once show ?thesis by (intro conjI)
qed

text \<open>
  Where C9 fails as stated: the first result renames token A to B, the second marks token
  B as no longer registered. The first reconciliation leaves one active row with token B;
  the second one deactivates it.
\<close>

theorem reconcile_idempotent_counterexample:
  "snd (cm_handle_response [JStr ''A'', JStr ''B'']
          (sample_response 1 1
            [[(''registration_id'', JStr ''B'')], [(''error'', JStr ''NotRegistered'')]])
          [sample_device ''A'' True])
       = [sample_device ''B'' True]
   \<and> snd (cm_handle_response [JStr ''A'', JStr ''B'']
          (sample_response 1 1
            [[(''registration_id'', JStr ''B'')], [(''error'', JStr ''NotRegistered'')]])
          [sample_device ''B'' True])
       = [sample_device ''B'' False]"
  by (simp add: dict_get_def cm_handle_response_def scan_result_def py_index_def
      deactivate_by_tokens_def cm_handle_canonical_id_def exists_active_def
      deactivate_by_token_def rename_token_def)

section \<open>Sending without an API key\<close>

lemma chunks_nonempty:
  assumes "1 \<le> n" and "chunks l n = Inr cs"
  shows "[] \<notin> set cs" and "l \<noteq> [] \<Longrightarrow> cs \<noteq> []"
proof -
  define m where "m = nat n"
  have mpos: "0 < m" using assms(1) by (simp add: m_def)
  have cs: "cs = map (\<lambda>k. take m (drop (k * m) l)) [0 ..< (length l + m - 1) div m]"
    using chunks_pos [OF assms(1), of l] assms(2) by (simp add: m_def)
  show "[] \<notin> set cs"
  proof
    assume "[] \<in> set cs"
    then obtain k where k: "k < (length l + m - 1) div m" and e: "take m (drop (k * m) l) = []"
      unfolding cs by auto
    from chunk_start_in_range [OF mpos k] have "k * m < length l" .
    with mpos e show False by simp
  qed
  show "cs \<noteq> []" if "l \<noteq> []"
  proof -
    have "m \<le> length l + m - 1" using that by (cases l) simp_all
    then have "0 < (length l + m - 1) div m" using mpos by (simp add: div_greater_zero_iff)
    then show ?thesis by (simp add: cs)
  qed
qed



lemma gcm_send_bulk_message_small:
  assumes "int (length ids) \<le> GCM_MAX_RECIPIENTS cfg"
  shows "gcm_send_bulk_message cfg gw ids d ck dwi ttl w = gcm_send_json cfg gw ids d ck dwi ttl w"
  using assms by (simp add: gcm_send_bulk_message_def Let_def)





text \<open>
  Where C8 fails as stated: the bulk send of one token without an API key, with the batch
  limit at zero and at minus one. The chunked path is taken before the key is read; the
  first raises \<^verbatim>\<open>ValueError\<close>, the second returns an empty list.
\<close>

theorem no_api_key_no_request_counterexample:
  "GCM_API_KEY (sample_settings None 0) = None
   \<and> gcm_send_bulk_message (sample_settings None 0)
        (\<lambda>n r. Body (Some (JObj []))) [JStr ''A'']
        JNull JNull (JBool False) (JInt 0) sample_world
      = (Inl ValueError, sample_world)
   \<and> gcm_send_bulk_message (sample_settings None (- 1))
        (\<lambda>n r. Body (Some (JObj []))) [JStr ''A'']
        JNull JNull (JBool False) (JInt 0) sample_world
      = (Inr (JList []), sample_world)"
  by (simp add: gcm_send_bulk_message_def Let_def chunks_def py_range_step_def)

section \<open>The envelope\<close>

lemma sort_key_same_dict:
  assumes "distinct (map fst kvs)" and "distinct (map fst kvs')" and "map_of kvs = map_of kvs'"
  shows "sort_key fst kvs = sort_key fst kvs'"
proof -
  have sets: "set kvs = set kvs'"
    using assms by (simp add: map_of_inject_set)
  have d: "distinct kvs" "distinct kvs'"
    using assms(1,2) by (simp_all add: distinct_map)
  have "mset kvs = mset kvs'"
    using sets d by (simp add: set_eq_iff_mset_eq_distinct)
  then have "mset kvs = mset (sort_key fst kvs')" by simp
  moreover have "inj_on fst (set kvs)"
    using assms(1) by (simp add: distinct_map)
  moreover have "sorted (map fst (sort_key fst kvs'))" by simp
  ultimately show ?thesis by (rule sort_key_inj_key_eq)
qed

lemma json_dumps_same_dict:
  assumes "distinct (map fst kvs)" and "distinct (map fst kvs')" and "map_of kvs = map_of kvs'"
  shows "json_dumps (JObj kvs) = json_dumps (JObj kvs')"
  by (simp add: sort_key_same_dict [OF assms])

lemma distinct_gcm_values: "distinct (map fst (gcm_values ids d ck dwi ttl))"
  by (simp add: gcm_values_def)

lemma map_of_gcm_values:
  "map_of (gcm_values ids d ck dwi ttl) ''registration_ids'' = Some (JList ids)"
  "map_of (gcm_values ids d ck dwi ttl) ''data'' = (if d \<noteq> JNull then Some d else None)"
  "map_of (gcm_values ids d ck dwi ttl) ''collapse_key'' = (if py_truthy ck then Some ck else None)"
  "map_of (gcm_values ids d ck dwi ttl) ''delay_while_idle'' = (if py_truthy dwi then Some dwi else None)"
  "map_of (gcm_values ids d ck dwi ttl) ''time_to_live'' = (if py_truthy ttl then Some ttl else None)"
  by (simp_all add: gcm_values_def)


lemma sorted_gcm_values:
  "sort_key fst (gcm_values ids d ck dwi ttl) =
     (if py_truthy ck then [(''collapse_key'', ck)] else [])
     @ (if d \<noteq> JNull then [(''data'', d)] else [])
     @ (if py_truthy dwi then [(''delay_while_idle'', dwi)] else [])
     @ [(''registration_ids'', JList ids)]
     @ (if py_truthy ttl then [(''time_to_live'', ttl)] else [])"
  by (simp add: gcm_values_def)

lemma json_dumps_gcm_values:
  "json_dumps (JObj (gcm_values ids d ck dwi ttl)) =
     ''{'' @ join '','' (envelope_items ids d ck dwi ttl) @ ''}''"
  by (simp only: json_dumps.simps sorted_gcm_values) (simp add: envelope_items_def)

lemma insort_key_map_snd:
  "insort_key fst (fst x, f (snd x)) (map (\<lambda>kv. (fst kv, f (snd kv))) xs)
     = map (\<lambda>kv. (fst kv, f (snd kv))) (insort_key fst x xs)"
  by (induction xs) simp_all

lemma sort_key_map_snd:
  "sort_key fst (map (\<lambda>kv. (fst kv, f (snd kv))) kvs)
     = map (\<lambda>kv. (fst kv, f (snd kv))) (sort_key fst kvs)"
  by (induction kvs) (simp_all add: insort_key_map_snd)

lemma json_dumps_key_sorted: "json_dumps (key_sorted j) = json_dumps j"
proof (induction j)
  case (JList xs)
  then have eq: "map (json_dumps \<circ> key_sorted) xs = map json_dumps xs"
    by (intro map_cong) simp_all
  show ?case
    by (simp only: key_sorted.simps json_dumps.simps map_map eq)
next
  case (JObj kvs)
  let ?g = "\<lambda>kv. (fst kv, key_sorted (snd kv))"
  let ?h = "\<lambda>kv. py_encode_basestring_ascii (fst kv) @ '':'' @ json_dumps (snd kv)"
  have ih: "json_dumps (key_sorted (snd kv)) = json_dumps (snd kv)" if "kv \<in> set kvs" for kv
    using JObj that by (cases kv) auto
  have "sort_key fst (sort_key fst (map ?g kvs)) = sort_key fst (map ?g kvs)"
    by (intro sort_key_id_if_sorted) simp
  moreover have "map ?h (sort_key fst (map ?g kvs)) = map ?h (sort_key fst kvs)"
    unfolding sort_key_map_snd map_map
    by (intro map_cong) (simp_all add: ih)
  ultimately show ?case by simp
qed simp_all

lemma json_dumps_same_content:
  assumes "same_content a b"
  shows "json_dumps a = json_dumps b"
proof -
  have "json_dumps (key_sorted a) = json_dumps (key_sorted b)"
    using assms by (simp add: same_content_def)
  then show ?thesis by (simp only: json_dumps_key_sorted)
qed

lemma key_sorted_JNull: "key_sorted j = JNull \<longleftrightarrow> j = JNull"
  by (cases j) simp_all

lemma sort_key_Nil_iff: "sort_key f xs = [] \<longleftrightarrow> xs = []"
proof -
  have "length (sort_key f xs) = length xs" by simp
  then show ?thesis by (metis length_0_conv)
qed

lemma py_truthy_key_sorted: "py_truthy (key_sorted j) = py_truthy j"
  by (cases j) (simp_all add: sort_key_Nil_iff)

lemma same_content_JNull:
  assumes "same_content a b"
  shows "a = JNull \<longleftrightarrow> b = JNull"
  using assms key_sorted_JNull [of a] key_sorted_JNull [of b] by (simp add: same_content_def)

lemma same_content_truthy:
  assumes "same_content a b"
  shows "py_truthy a = py_truthy b"
  using assms py_truthy_key_sorted [of a] py_truthy_key_sorted [of b]
  by (simp add: same_content_def)

lemma envelope_items_same_content:
  assumes "same_content d d'" and "same_content ck ck'" and "same_content dwi dwi'"
    and "same_content ttl ttl'"
  shows "envelope_items ids d' ck' dwi' ttl' = envelope_items ids d ck dwi ttl"
  unfolding envelope_items_def
  by (simp only: same_content_JNull [OF assms(1)] same_content_truthy [OF assms(2)]
      same_content_truthy [OF assms(3)] same_content_truthy [OF assms(4)]
      json_dumps_same_content [OF assms(1)] json_dumps_same_content [OF assms(2)]
      json_dumps_same_content [OF assms(3)] json_dumps_same_content [OF assms(4)])

lemma gcm_send_with_key:
  assumes "GCM_API_KEY cfg = Some k" and "k \<noteq> []" and "GCM_POST_URL cfg = Some u"
  shows "gcm_send cfg gw data content_type w =
      (case gw (length (sent w))
              \<lparr>url = u, body = data,
               headers = [(''Content-Type'', content_type), (''Authorization'', ''key='' @ k),
                          (''Content-Length'', nat_to_str (length data))]\<rparr> of
         RaisesHTTPError \<Rightarrow>
           (Inl HTTPError,
            w\<lparr>sent := sent w @
              [\<lparr>url = u, body = data,
                headers = [(''Content-Type'', content_type), (''Authorization'', ''key='' @ k),
                           (''Content-Length'', nat_to_str (length data))]\<rparr>]\<rparr>)
       | Body b \<Rightarrow>
           (Inr b,
            w\<lparr>sent := sent w @
              [\<lparr>url = u, body = data,
                headers = [(''Content-Type'', content_type), (''Authorization'', ''key='' @ k),
                           (''Content-Length'', nat_to_str (length data))]\<rparr>]\<rparr>))"
  using assms by (simp add: gcm_send_def Let_def split: reply.split)

lemma gcm_send_json_request:
  assumes "ids \<noteq> []" and "GCM_API_KEY cfg = Some k" and "k \<noteq> []" and "GCM_POST_URL cfg = Some u"
  shows "sent (snd (gcm_send_json cfg gw ids d ck dwi ttl w)) =
     sent w @ [\<lparr>url = u, body = json_dumps (JObj (gcm_values ids d ck dwi ttl)),
                headers = [(''Content-Type'', ''application/json''),
                           (''Authorization'', ''key='' @ k),
                           (''Content-Length'',
                             nat_to_str (length (json_dumps (JObj (gcm_values ids d ck dwi ttl)))))]\<rparr>]"
proof -
  let ?body = "json_dumps (JObj (gcm_values ids d ck dwi ttl))"
  let ?req = "\<lparr>url = u, body = ?body,
                headers = [(''Content-Type'', ''application/json''),
                           (''Authorization'', ''key='' @ k),
                           (''Content-Length'', nat_to_str (length ?body))]\<rparr>"
  let ?w1 = "w\<lparr>sent := sent w @ [?req]\<rparr>"
  have send: "gcm_send cfg gw ?body ''application/json'' w =
      (case gw (length (sent w)) ?req of
         RaisesHTTPError \<Rightarrow> (Inl HTTPError, ?w1) | Body b \<Rightarrow> (Inr b, ?w1))"
    by (rule gcm_send_with_key [OF assms(2-4)])
  show ?thesis
  proof (cases "gw (length (sent w)) ?req")
    case RaisesHTTPError
    then show ?thesis
      using assms(1) by (simp add: gcm_send_json_def Let_def send del: json_dumps.simps)
  next
    case (Body b)
    show ?thesis
    proof (cases b)
      case None
      with Body show ?thesis
        using assms(1) by (simp add: gcm_send_json_def Let_def send json_loads_def del: json_dumps.simps)
    next
      case (Some result)
      obtain out reg where r: "cm_handle_response ids result (devices ?w1) = (out, reg)"
        by (cases "cm_handle_response ids result (devices ?w1)")
      from Body Some r show ?thesis
        using assms(1) by (simp add: gcm_send_json_def Let_def send json_loads_def del: json_dumps.simps)
    qed
  qed
qed

text \<open>
  C7. The dictionary the request builder serializes always holds the token list under the
  key \<^verbatim>\<open>registration_ids\<close>; it holds \<^verbatim>\<open>data\<close> exactly when the payload is not
  \<^verbatim>\<open>None\<close>, \<^verbatim>\<open>collapse_key\<close> exactly when the collapse key is truthy,
  \<^verbatim>\<open>delay_while_idle\<close> exactly when the flag is truthy (for a boolean: true) and
  \<^verbatim>\<open>time_to_live\<close> exactly when the time to live is truthy (for an integer: not
  zero). Its serialization lists the items in the order of the keys, whatever the order of
  insertion: any dictionary with the same content serializes to the same string, and so do
  the envelopes of payloads and options that differ only in the order of the items of
  their dictionaries, at any depth. With an
  API key and a gateway URL configured, a call on a token list that is not empty sends
  exactly one request, whose body is this string and whose content length is its length.
\<close>

theorem gcm_send_json_envelope:
  "map_of (gcm_values ids d ck dwi ttl) ''registration_ids'' = Some (JList ids)
   \<and> map_of (gcm_values ids d ck dwi ttl) ''data'' = (if d \<noteq> JNull then Some d else None)
   \<and> map_of (gcm_values ids d ck dwi ttl) ''collapse_key''
        = (if py_truthy ck then Some ck else None)
   \<and> map_of (gcm_values ids d ck dwi ttl) ''delay_while_idle''
        = (if py_truthy dwi then Some dwi else None)
   \<and> map_of (gcm_values ids d ck dwi ttl) ''time_to_live''
        = (if py_truthy ttl then Some ttl else None)
   \<and> json_dumps (JObj (gcm_values ids d ck dwi ttl))
        = ''{'' @ join '','' (envelope_items ids d ck dwi ttl) @ ''}''
   \<and> (\<forall>kvs. distinct (map fst kvs) \<longrightarrow> map_of kvs = map_of (gcm_values ids d ck dwi ttl) \<longrightarrow>
          json_dumps (JObj kvs) = json_dumps (JObj (gcm_values ids d ck dwi ttl)))
   \<and> (\<forall>d' ck' dwi' ttl'. same_content d d' \<longrightarrow> same_content ck ck' \<longrightarrow>
          same_content dwi dwi' \<longrightarrow> same_content ttl ttl' \<longrightarrow>
          json_dumps (JObj (gcm_values ids d' ck' dwi' ttl'))
            = json_dumps (JObj (gcm_values ids d ck dwi ttl)))
   \<and> (ids \<noteq> [] \<longrightarrow> GCM_API_KEY cfg = Some k \<longrightarrow> k \<noteq> [] \<longrightarrow> GCM_POST_URL cfg = Some u \<longrightarrow>
        sent (snd (gcm_send_json cfg gw ids d ck dwi ttl w)) =
          sent w @ [\<lparr>url = u, body = json_dumps (JObj (gcm_values ids d ck dwi ttl)),
                headers = [(''Content-Type'', ''application/json''),
                           (''Authorization'', ''key='' @ k),
                           (''Content-Length'',
                             nat_to_str (length (json_dumps (JObj (gcm_values ids d ck dwi ttl)))))]\<rparr>])"
proof -
  have order: "json_dumps (JObj kvs) = json_dumps (JObj (gcm_values ids d ck dwi ttl))"
    if "distinct (map fst kvs)" and "map_of kvs = map_of (gcm_values ids d ck dwi ttl)" for kvs
    using that distinct_gcm_values by (intro json_dumps_same_dict)
  have content: "json_dumps (JObj (gcm_values ids d' ck' dwi' ttl'))
            = json_dumps (JObj (gcm_values ids d ck dwi ttl))"
    if "same_content d d'" and "same_content ck ck'" and "same_content dwi dwi'"
      and "same_content ttl ttl'" for d' ck' dwi' ttl'
    by (simp only: json_dumps_gcm_values envelope_items_same_content [OF that])
  show ?thesis
    by (intro conjI allI impI map_of_gcm_values json_dumps_gcm_values order content
        gcm_send_json_request)
qed

theorem gcm_send_json_envelope_witness:
  \<open>distinct (map fst [(''time_to_live'', JInt 60), (''data'', JObj [(''message'', JStr ''hi'')]),
        (''registration_ids'', JList [JStr ''A'']), (''delay_while_idle'', JBool True),
        (''collapse_key'', JStr ''c'')])
   \<and> json_dumps (JObj [(''time_to_live'', JInt 60), (''data'', JObj [(''message'', JStr ''hi'')]),
        (''registration_ids'', JList [JStr ''A'']), (''delay_while_idle'', JBool True),
        (''collapse_key'', JStr ''c'')])
     = json_dumps (JObj (gcm_values [JStr ''A''] (JObj [(''message'', JStr ''hi'')]) (JStr ''c'')
          (JBool True) (JInt 60)))
   \<and> json_dumps (JObj (gcm_values [JStr ''A''] (JObj [(''message'', JStr ''hi'')]) (JStr ''c'')
          (JBool True) (JInt 60)))
     = ''{"collapse_key":"c","data":{"message":"hi"},"delay_while_idle":true,"registration_ids":["A"],"time_to_live":60}''
   \<and> json_dumps (JObj (gcm_values [JStr ''A''] JNull JNull (JBool False) (JInt 0)))
     = ''{"registration_ids":["A"]}''
   \<and> same_content (JObj [(''b'', JInt 1), (''a'', JObj [(''y'', JNull), (''x'', JStr ''s'')])])
         (JObj [(''a'', JObj [(''x'', JStr ''s''), (''y'', JNull)]), (''b'', JInt 1)])
   \<and> json_dumps (JObj (gcm_values [JStr ''A'']
          (JObj [(''a'', JObj [(''x'', JStr ''s''), (''y'', JNull)]), (''b'', JInt 1)])
          JNull (JBool False) (JInt 0)))
     = json_dumps (JObj (gcm_values [JStr ''A'']
          (JObj [(''b'', JInt 1), (''a'', JObj [(''y'', JNull), (''x'', JStr ''s'')])])
          JNull (JBool False) (JInt 0)))
   \<and> sent (snd (gcm_send_json (sample_settings (Some ''k'') 1000)
          (\<lambda>n r. Body (Some (JObj [(''success'', JInt 1)])))
          [JStr ''A''] JNull JNull (JBool False) (JInt 0) sample_world))
     = [\<lparr>url = ''https://gcm.example/send'', body = ''{"registration_ids":["A"]}'',
         headers = [(''Content-Type'', ''application/json''), (''Authorization'', ''key=k''),
                    (''Content-Length'', ''26'')]\<rparr>]\<close>
proof -
  let ?kvs = "[(''time_to_live'', JInt 60), (''data'', JObj [(''message'', JStr ''hi'')]),
        (''registration_ids'', JList [JStr ''A'']), (''delay_while_idle'', JBool True),
        (''collapse_key'', JStr ''c'')]"
  let ?d = "JObj [(''message'', JStr ''hi'')]"
  let ?cfg = "sample_settings (Some ''k'') 1000"
  let ?gw = "\<lambda>(n::nat) (r::request). Body (Some (JObj [(''success'', JInt 1)]))"
  have dist: "distinct (map fst ?kvs)" by simp
  have same: "map_of ?kvs = map_of (gcm_values [JStr ''A''] ?d (JStr ''c'') (JBool True) (JInt 60))"
    by (rule ext) (simp add: gcm_values_def)
  note full = gcm_send_json_envelope
    [of "[JStr ''A'']" ?d "JStr ''c''" "JBool True" "JInt 60" ?cfg "''k''"
        "''https://gcm.example/send''" ?gw sample_world]
  note bare = gcm_send_json_envelope
    [of "[JStr ''A'']" JNull JNull "JBool False" "JInt 0" ?cfg "''k''"
        "''https://gcm.example/send''" ?gw sample_world]
  have order: "json_dumps (JObj ?kvs)
      = json_dumps (JObj (gcm_values [JStr ''A''] ?d (JStr ''c'') (JBool True) (JInt 60)))"
    using full dist same by blast
  have lit: \<open>json_dumps (JObj (gcm_values [JStr ''A''] ?d (JStr ''c'') (JBool True) (JInt 60)))
     = ''{"collapse_key":"c","data":{"message":"hi"},"delay_while_idle":true,"registration_ids":["A"],"time_to_live":60}''\<close>
    by (simp add: gcm_values_def py_encode_basestring_ascii_def escape_char_def int_to_str_def
        nat_to_str.simps digit_char_def)
  have lit0: \<open>json_dumps (JObj (gcm_values [JStr ''A''] JNull JNull (JBool False) (JInt 0)))
     = ''{"registration_ids":["A"]}''\<close>
    by (simp add: gcm_values_def py_encode_basestring_ascii_def escape_char_def)
  have len: "nat_to_str 26 = ''26''"
    by (simp add: nat_to_str.simps digit_char_def)
  have size: \<open>length ''{"registration_ids":["A"]}'' = 26\<close>
    by simp
  have "sent (snd (gcm_send_json ?cfg ?gw [JStr ''A''] JNull JNull (JBool False) (JInt 0)
            sample_world)) =
      sent sample_world @ [\<lparr>url = ''https://gcm.example/send'',
         body = json_dumps (JObj (gcm_values [JStr ''A''] JNull JNull (JBool False) (JInt 0))),
         headers = [(''Content-Type'', ''application/json''), (''Authorization'', ''key='' @ ''k''),
           (''Content-Length'', nat_to_str (length (json_dumps
               (JObj (gcm_values [JStr ''A''] JNull JNull (JBool False) (JInt 0))))))]\<rparr>]"
    using bare by simp
  then have req: \<open>sent (snd (gcm_send_json ?cfg ?gw [JStr ''A''] JNull JNull (JBool False) (JInt 0)
            sample_world))
     = [\<lparr>url = ''https://gcm.example/send'', body = ''{"registration_ids":["A"]}'',
         headers = [(''Content-Type'', ''application/json''), (''Authorization'', ''key=k''),
                    (''Content-Length'', ''26'')]\<rparr>]\<close>
    by (simp only: lit0 size len) simp
  let ?p = "JObj [(''b'', JInt 1), (''a'', JObj [(''y'', JNull), (''x'', JStr ''s'')])]"
  let ?q = "JObj [(''a'', JObj [(''x'', JStr ''s''), (''y'', JNull)]), (''b'', JInt 1)]"
  have sc: "same_content ?p ?q" by (simp add: same_content_def)
  have refl: "same_content x x" for x by (simp add: same_content_def)
  note nested = gcm_send_json_envelope
    [of "[JStr ''A'']" ?p JNull "JBool False" "JInt 0" ?cfg "''k''"
        "''https://gcm.example/send''" ?gw sample_world]
  have payload: "json_dumps (JObj (gcm_values [JStr ''A''] ?q JNull (JBool False) (JInt 0)))
     = json_dumps (JObj (gcm_values [JStr ''A''] ?p JNull (JBool False) (JInt 0)))"
    using nested sc refl by blast
  from dist order lit lit0 sc payload req show ?thesis by (intro conjI)
qed

section \<open>Single send and bulk send\<close>

lemma gcm_send_message_world:
  "snd (gcm_send_message cfg gw rid d ck dwi ttl w) = snd (gcm_send_json cfg gw [rid] d ck dwi ttl w)"
proof (cases "gcm_send_json cfg gw [rid] d ck dwi ttl w")
  case (Pair out w1)
  then show ?thesis by (cases out) (simp_all add: gcm_send_message_def)
qed

lemma gcm_send_message_error:
  "fst (gcm_send_message cfg gw rid d ck dwi ttl w) = Inl e
     \<longleftrightarrow> fst (gcm_send_json cfg gw [rid] d ck dwi ttl w) = Inl e"
proof (cases "gcm_send_json cfg gw [rid] d ck dwi ttl w")
  case (Pair out w1)
  then show ?thesis by (cases out) (simp_all add: gcm_send_message_def)
qed

text \<open>
  C4, as the code has it. When the configured maximum batch size is at least one, the
  single send leaves the same world as the bulk send on the list of that one token, the
  same requests sent and the same registry, and it raises an error exactly when the bulk
  send raises it. What the single send returns on success is not part of the statement.
\<close>

theorem gcm_send_message_as_bulk:
  assumes "1 \<le> GCM_MAX_RECIPIENTS cfg"
  shows "snd (gcm_send_message cfg gw rid d ck dwi ttl w)
           = snd (gcm_send_bulk_message cfg gw [rid] d ck dwi ttl w)
       \<and> (\<forall>e. fst (gcm_send_message cfg gw rid d ck dwi ttl w) = Inl e
              \<longleftrightarrow> fst (gcm_send_bulk_message cfg gw [rid] d ck dwi ttl w) = Inl e)"
proof -
  have "gcm_send_bulk_message cfg gw [rid] d ck dwi ttl w
      = gcm_send_json cfg gw [rid] d ck dwi ttl w"
    using assms by (intro gcm_send_bulk_message_small) simp
  then show ?thesis
    by (simp add: gcm_send_message_world gcm_send_message_error)
qed

theorem gcm_send_message_as_bulk_witness:
  "(1::int) \<le> GCM_MAX_RECIPIENTS (sample_settings (Some ''k'') 1000)
   \<and> snd (gcm_send_message (sample_settings (Some ''k'') 1000)
          (\<lambda>n r. Body (Some (sample_response 1 0 [[(''error'', JStr ''NotRegistered'')]])))
          (JStr ''A'') JNull JNull (JBool False) (JInt 0) sample_world)
     = snd (gcm_send_bulk_message (sample_settings (Some ''k'') 1000)
          (\<lambda>n r. Body (Some (sample_response 1 0 [[(''error'', JStr ''NotRegistered'')]])))
          [JStr ''A''] JNull JNull (JBool False) (JInt 0) sample_world)
   \<and> devices (snd (gcm_send_message (sample_settings (Some ''k'') 1000)
          (\<lambda>n r. Body (Some (sample_response 1 0 [[(''error'', JStr ''NotRegistered'')]])))
          (JStr ''A'') JNull JNull (JBool False) (JInt 0) sample_world))
     = [sample_device ''A'' False]"
proof -
  have h: "(1::int) \<le> GCM_MAX_RECIPIENTS (sample_settings (Some ''k'') 1000)" by simp
  have v: "devices (snd (gcm_send_message (sample_settings (Some ''k'') 1000)
          (\<lambda>n r. Body (Some (sample_response 1 0 [[(''error'', JStr ''NotRegistered'')]])))
          (JStr ''A'') JNull JNull (JBool False) (JInt 0) sample_world))
     = [sample_device ''A'' False]"
    by (simp add: gcm_send_message_def gcm_send_json_def gcm_send_def Let_def json_loads_def
        cm_handle_response_def dict_get_def scan_result_def py_index_def
        deactivate_by_tokens_def)
  from gcm_send_message_as_bulk [OF h, THEN conjunct1] h v show ?thesis
    by (intro conjI)
qed

text \<open>
  Where C4 fails as stated. With the batch limit at 1000 and a gateway that accepts the
  message, the bulk send returns the response and the single send returns
  \<^verbatim>\<open>None\<close>. With the batch limit at 0 the bulk send takes the chunked path for a
  list of one token and raises \<^verbatim>\<open>ValueError\<close> before any request, while the single
  send goes through.
\<close>

theorem gcm_send_message_as_bulk_counterexample:
  "fst (gcm_send_message (sample_settings (Some ''k'') 1000)
          (\<lambda>n r. Body (Some (JObj [(''success'', JInt 1)])))
          (JStr ''A'') JNull JNull (JBool False) (JInt 0) sample_world)
     = Inr JNull
   \<and> fst (gcm_send_bulk_message (sample_settings (Some ''k'') 1000)
          (\<lambda>n r. Body (Some (JObj [(''success'', JInt 1)])))
          [JStr ''A''] JNull JNull (JBool False) (JInt 0) sample_world)
     = Inr (JObj [(''success'', JInt 1)])
   \<and> gcm_send_bulk_message (sample_settings (Some ''k'') 0)
          (\<lambda>n r. Body (Some (JObj [(''success'', JInt 1)])))
          [JStr ''A''] JNull JNull (JBool False) (JInt 0) sample_world
     = (Inl ValueError, sample_world)
   \<and> fst (gcm_send_message (sample_settings (Some ''k'') 0)
          (\<lambda>n r. Body (Some (JObj [(''success'', JInt 1)])))
          (JStr ''A'') JNull JNull (JBool False) (JInt 0) sample_world)
     = Inr JNull"
  by (simp add: gcm_send_bulk_message_def gcm_send_message_def gcm_send_json_def gcm_send_def
      Let_def json_loads_def cm_handle_response_def dict_get_def chunks_def py_range_step_def)

section \<open>The bulk send over several chunks\<close>

lemma gcm_send_sent:
  assumes "gcm_send cfg gw data content_type w = (Inr b, w1)"
  shows "\<exists>req. sent w1 = sent w @ [req] \<and> body req = data \<and> devices w1 = devices w"
proof (cases "GCM_API_KEY cfg")
  case None
  with assms show ?thesis by (simp add: gcm_send_def)
next
  case (Some k)
  show ?thesis
  proof (cases "k = []")
    case True
    with Some assms show ?thesis by (simp add: gcm_send_def)
  next
    case False
    show ?thesis
    proof (cases "GCM_POST_URL cfg")
      case None
      with Some False assms show ?thesis by (simp add: gcm_send_def)
    next
      case u: (Some u)
      from assms show ?thesis
        unfolding gcm_send_with_key [OF Some False u]
        by (cases "gw (length (sent w))
              \<lparr>url = u, body = data,
               headers = [(''Content-Type'', content_type), (''Authorization'', ''key='' @ k),
                          (''Content-Length'', nat_to_str (length data))]\<rparr>") auto
    qed
  qed
qed

lemma gcm_send_json_sent:
  assumes "ids \<noteq> []" and "gcm_send_json cfg gw ids d ck dwi ttl w = (Inr r, w1)"
  shows "\<exists>req. sent w1 = sent w @ [req] \<and> body req = envelope ids d ck dwi ttl"
proof (cases "gcm_send cfg gw (envelope ids d ck dwi ttl) ''application/json'' w")
  case (Pair out w2)
  show ?thesis
  proof (cases out)
    case (Inl e)
    with Pair assms show ?thesis
      by (simp add: gcm_send_json_def Let_def envelope_def del: json_dumps.simps)
  next
    case (Inr raw)
    from gcm_send_sent [OF Pair [unfolded Inr]] obtain req where
      req: "sent w2 = sent w @ [req]" "body req = envelope ids d ck dwi ttl" by blast
    show ?thesis
    proof (cases raw)
      case None
      with Pair Inr assms show ?thesis
        by (simp add: gcm_send_json_def Let_def envelope_def json_loads_def del: json_dumps.simps)
    next
      case (Some result)
      obtain out2 reg where h: "cm_handle_response ids result (devices w2) = (out2, reg)"
        by (cases "cm_handle_response ids result (devices w2)")
      from Pair Inr Some h assms have "w1 = w2\<lparr>devices := reg\<rparr>"
        by (simp add: gcm_send_json_def Let_def envelope_def json_loads_def del: json_dumps.simps)
      with req show ?thesis by simp
    qed
  qed
qed

lemma send_chunks_ok:
  assumes "[] \<notin> set cs" and "send_chunks cfg gw cs d ck dwi ttl ret w = (Inr outs, w')"
  shows "length outs = length ret + length cs
       \<and> (\<exists>reqs. sent w' = sent w @ reqs
             \<and> map body reqs = map (\<lambda>c. envelope c d ck dwi ttl) cs)"
  using assms
proof (induction cs arbitrary: ret w)
  case Nil
  then show ?case by simp
next
  case (Cons c cs)
  obtain out w1 where one: "gcm_send_json cfg gw c d ck dwi ttl w = (out, w1)"
    by (cases "gcm_send_json cfg gw c d ck dwi ttl w")
  show ?case
  proof (cases out)
    case (Inl e)
    with one Cons.prems(2) show ?thesis by simp
  next
    case (Inr r)
    have c: "c \<noteq> []" and rest: "[] \<notin> set cs" using Cons.prems(1) by auto
    from gcm_send_json_sent [OF c one [unfolded Inr]] obtain req where
      req: "sent w1 = sent w @ [req]" "body req = envelope c d ck dwi ttl" by blast
    have run: "send_chunks cfg gw cs d ck dwi ttl (ret @ [r]) w1 = (Inr outs, w')"
      using Cons.prems(2) one Inr by simp
    from Cons.IH [OF rest run] obtain reqs where
      len: "length outs = length (ret @ [r]) + length cs"
      and reqs: "sent w' = sent w1 @ reqs" "map body reqs = map (\<lambda>c. envelope c d ck dwi ttl) cs"
      by blast
    have "sent w' = sent w @ (req # reqs)
        \<and> map body (req # reqs) = map (\<lambda>c. envelope c d ck dwi ttl) (c # cs)"
      using req reqs by simp
    then have "\<exists>reqs. sent w' = sent w @ reqs
        \<and> map body reqs = map (\<lambda>c. envelope c d ck dwi ttl) (c # cs)" by (rule exI)
    with len show ?thesis by simp
  qed
qed

lemma send_chunks_fail:
  assumes "[] \<notin> set cs" and "send_chunks cfg gw cs d ck dwi ttl ret w = (Inl e, w')"
  shows "\<exists>k wk reqs. k < length cs \<and> sent wk = sent w @ reqs
           \<and> map body reqs = map (\<lambda>c. envelope c d ck dwi ttl) (take k cs)
           \<and> gcm_send_json cfg gw (cs ! k) d ck dwi ttl wk = (Inl e, w')"
  using assms
proof (induction cs arbitrary: ret w)
  case Nil
  then show ?case by simp
next
  case (Cons c cs)
  obtain out w1 where one: "gcm_send_json cfg gw c d ck dwi ttl w = (out, w1)"
    by (cases "gcm_send_json cfg gw c d ck dwi ttl w")
  show ?case
  proof (cases out)
    case (Inl e1)
    with one Cons.prems(2) have "gcm_send_json cfg gw c d ck dwi ttl w = (Inl e, w')" by simp
    then have "0 < length (c # cs) \<and> sent w = sent w @ []
           \<and> map body [] = map (\<lambda>c. envelope c d ck dwi ttl) (take 0 (c # cs))
           \<and> gcm_send_json cfg gw ((c # cs) ! 0) d ck dwi ttl w = (Inl e, w')" by simp
    then show ?thesis by blast
  next
    case (Inr r)
    have c: "c \<noteq> []" and rest: "[] \<notin> set cs" using Cons.prems(1) by auto
    from gcm_send_json_sent [OF c one [unfolded Inr]] obtain req where
      req: "sent w1 = sent w @ [req]" "body req = envelope c d ck dwi ttl" by blast
    have run: "send_chunks cfg gw cs d ck dwi ttl (ret @ [r]) w1 = (Inl e, w')"
      using Cons.prems(2) one Inr by simp
    from Cons.IH [OF rest run] obtain k wk reqs where
      k: "k < length cs" and wk: "sent wk = sent w1 @ reqs"
      and bodies: "map body reqs = map (\<lambda>c. envelope c d ck dwi ttl) (take k cs)"
      and fail: "gcm_send_json cfg gw (cs ! k) d ck dwi ttl wk = (Inl e, w')"
      by blast
    have "Suc k < length (c # cs) \<and> sent wk = sent w @ (req # reqs)
           \<and> map body (req # reqs) = map (\<lambda>c. envelope c d ck dwi ttl) (take (Suc k) (c # cs))
           \<and> gcm_send_json cfg gw ((c # cs) ! Suc k) d ck dwi ttl wk = (Inl e, w')"
      using k wk bodies fail req by simp
    then show ?thesis by blast
  qed
qed

lemma send_chunks_outcomes:
  assumes "send_chunks cfg gw cs d ck dwi ttl ret w = (Inr outs, w')"
  shows "\<exists>rs ws. outs = ret @ rs \<and> length rs = length cs \<and> length ws = Suc (length cs)
           \<and> ws ! 0 = w \<and> ws ! length cs = w'
           \<and> (\<forall>k < length cs. gcm_send_json cfg gw (cs ! k) d ck dwi ttl (ws ! k)
                  = (Inr (rs ! k), ws ! Suc k))"
  using assms
proof (induction cs arbitrary: ret w)
  case Nil
  show ?case
    by (rule exI [where x = "[]"], rule exI [where x = "[w]"]) (use Nil in simp)
next
  case (Cons c cs)
  obtain out w1 where one: "gcm_send_json cfg gw c d ck dwi ttl w = (out, w1)"
    by (cases "gcm_send_json cfg gw c d ck dwi ttl w")
  show ?case
  proof (cases out)
    case (Inl e)
    with one Cons.prems show ?thesis by simp
  next
    case (Inr r)
    have run: "send_chunks cfg gw cs d ck dwi ttl (ret @ [r]) w1 = (Inr outs, w')"
      using Cons.prems one Inr by simp
    from Cons.IH [OF run] obtain rs ws where
      outs: "outs = (ret @ [r]) @ rs" and lr: "length rs = length cs"
      and lw: "length ws = Suc (length cs)" and w0: "ws ! 0 = w1" and wn: "ws ! length cs = w'"
      and step: "\<forall>k < length cs. gcm_send_json cfg gw (cs ! k) d ck dwi ttl (ws ! k)
                  = (Inr (rs ! k), ws ! Suc k)"
      by (elim exE conjE)
    have each: "gcm_send_json cfg gw ((c # cs) ! k) d ck dwi ttl ((w # ws) ! k)
                  = (Inr ((r # rs) ! k), (w # ws) ! Suc k)" if "k < length (c # cs)" for k
    proof (cases k)
      case 0
      with one Inr w0 show ?thesis by simp
    next
      case (Suc j)
      with that step show ?thesis by simp
    qed
    show ?thesis
    proof (rule exI [where x = "r # rs"], rule exI [where x = "w # ws"], intro conjI allI impI)
      show "outs = ret @ r # rs" using outs by simp
      show "length (r # rs) = length (c # cs)" using lr by simp
      show "length (w # ws) = Suc (length (c # cs))" using lw by simp
      show "(w # ws) ! 0 = w" by simp
      show "(w # ws) ! length (c # cs) = w'" using wn by simp
      show "gcm_send_json cfg gw ((c # cs) ! k) d ck dwi ttl ((w # ws) ! k)
                  = (Inr ((r # rs) ! k), (w # ws) ! Suc k)" if "k < length (c # cs)" for k
        using that by (rule each)
    qed
  qed
qed

lemma send_chunks_prefix:
  assumes "[] \<notin> set cs" and "send_chunks cfg gw cs d ck dwi ttl ret w = (Inl e, w')"
  shows "\<exists>k rs ws reqs. k < length cs \<and> length rs = k \<and> length ws = Suc k \<and> ws ! 0 = w
           \<and> (\<forall>j < k. gcm_send_json cfg gw (cs ! j) d ck dwi ttl (ws ! j)
                  = (Inr (rs ! j), ws ! Suc j))
           \<and> sent (ws ! k) = sent w @ reqs
           \<and> map body reqs = map (\<lambda>c. envelope c d ck dwi ttl) (take k cs)
           \<and> gcm_send_json cfg gw (cs ! k) d ck dwi ttl (ws ! k) = (Inl e, w')"
  using assms
proof (induction cs arbitrary: ret w)
  case Nil
  then show ?case by simp
next
  case (Cons c cs)
  obtain out w1 where one: "gcm_send_json cfg gw c d ck dwi ttl w = (out, w1)"
    by (cases "gcm_send_json cfg gw c d ck dwi ttl w")
  show ?case
  proof (cases out)
    case (Inl e1)
    with one Cons.prems(2) have f: "gcm_send_json cfg gw c d ck dwi ttl w = (Inl e, w')" by simp
    show ?thesis
    proof (rule exI [where x = 0], rule exI [where x = "[]"], rule exI [where x = "[w]"],
        rule exI [where x = "[]"], intro conjI allI impI)
      show "0 < length (c # cs)" by simp
      show "length ([]::json list) = 0" by simp
      show "length [w] = Suc 0" by simp
      show "[w] ! 0 = w" by simp
      show "sent ([w] ! 0) = sent w @ []" by simp
      show "map body [] = map (\<lambda>c. envelope c d ck dwi ttl) (take 0 (c # cs))" by simp
      show "gcm_send_json cfg gw ((c # cs) ! 0) d ck dwi ttl ([w] ! 0) = (Inl e, w')"
        using f by simp
    qed simp
  next
    case (Inr r)
    have c: "c \<noteq> []" and rest: "[] \<notin> set cs" using Cons.prems(1) by auto
    from gcm_send_json_sent [OF c one [unfolded Inr]] obtain req where
      req: "sent w1 = sent w @ [req]" "body req = envelope c d ck dwi ttl" by blast
    have run: "send_chunks cfg gw cs d ck dwi ttl (ret @ [r]) w1 = (Inl e, w')"
      using Cons.prems(2) one Inr by simp
    from Cons.IH [OF rest run] obtain k rs ws reqs where
      k: "k < length cs" and lr: "length rs = k" and lw: "length ws = Suc k"
      and w0: "ws ! 0 = w1"
      and step: "\<forall>j < k. gcm_send_json cfg gw (cs ! j) d ck dwi ttl (ws ! j)
                  = (Inr (rs ! j), ws ! Suc j)"
      and log: "sent (ws ! k) = sent w1 @ reqs"
      and bodies: "map body reqs = map (\<lambda>c. envelope c d ck dwi ttl) (take k cs)"
      and fail: "gcm_send_json cfg gw (cs ! k) d ck dwi ttl (ws ! k) = (Inl e, w')"
      by (elim exE conjE)
    have each: "gcm_send_json cfg gw ((c # cs) ! j) d ck dwi ttl ((w # ws) ! j)
                  = (Inr ((r # rs) ! j), (w # ws) ! Suc j)" if "j < Suc k" for j
    proof (cases j)
      case 0
      with one Inr w0 show ?thesis by simp
    next
      case (Suc i)
      with that step show ?thesis by simp
    qed
    show ?thesis
    proof (rule exI [where x = "Suc k"], rule exI [where x = "r # rs"],
        rule exI [where x = "w # ws"], rule exI [where x = "req # reqs"], intro conjI allI impI)
      show "Suc k < length (c # cs)" using k by simp
      show "length (r # rs) = Suc k" using lr by simp
      show "length (w # ws) = Suc (Suc k)" using lw by simp
      show "(w # ws) ! 0 = w" by simp
      show "gcm_send_json cfg gw ((c # cs) ! j) d ck dwi ttl ((w # ws) ! j)
                  = (Inr ((r # rs) ! j), (w # ws) ! Suc j)" if "j < Suc k" for j
        using that by (rule each)
      show "sent ((w # ws) ! Suc k) = sent w @ req # reqs" using log req(1) by simp
      show "map body (req # reqs) = map (\<lambda>c. envelope c d ck dwi ttl) (take (Suc k) (c # cs))"
        using bodies req(2) by simp
      show "gcm_send_json cfg gw ((c # cs) ! Suc k) d ck dwi ttl ((w # ws) ! Suc k) = (Inl e, w')"
        using fail by simp
    qed
  qed
qed

lemma chunks_concat:
  assumes "1 \<le> n" and "chunks l n = Inr cs"
  shows "concat cs = l"
    and "length cs = (length l + nat n - 1) div nat n"
    and "\<forall>k < length cs. cs ! k = take (nat n) (drop (k * nat n) l)"
proof -
  define m where "m = nat n"
  have mpos: "0 < m" using assms(1) by (simp add: m_def)
  have cs: "cs = map (\<lambda>k. take m (drop (k * m) l)) [0 ..< (length l + m - 1) div m]"
    using chunks_pos [OF assms(1), of l] assms(2) by (simp add: m_def)
  have "concat cs = take (((length l + m - 1) div m) * m) l"
    unfolding cs by (rule concat_slices)
  with chunk_count_covers [OF mpos, of "length l"] show "concat cs = l" by simp
  show "length cs = (length l + nat n - 1) div nat n" by (simp add: cs m_def)
  show "\<forall>k < length cs. cs ! k = take (nat n) (drop (k * nat n) l)" by (simp add: cs m_def)
qed

text \<open>
  C1, as the code has it. For a token list longer than the configured maximum batch size
  \<open>n \<ge> 1\<close>, the bulk send splits the list into contiguous chunks of size \<open>n\<close>, the
  last one possibly shorter, and sends them one after the other in order, one request per
  chunk, the body of each being the envelope of its chunk. If no chunk raises, every chunk
  has been sent and the list returned holds, at position \<open>k\<close>, the outcome of the send of
  chunk \<open>k\<close>, made in the world the sends of the chunks before it left. If the bulk send
  raises, the error is the one of the first chunk that raised, the chunks before it having
  returned normally, each in the world left by its predecessor: the requests sent are
  those of the chunks before it, followed by what that chunk's own send did, and no later
  chunk is sent. A list of 2500 tokens with a maximum of 1000 gives chunks of sizes 1000, 1000
  and 500.
\<close>

theorem bulk_send_chunks:
  assumes big: "GCM_MAX_RECIPIENTS cfg < int (length ids)"
    and pos: "1 \<le> GCM_MAX_RECIPIENTS cfg"
  shows "\<exists>cs. chunks ids (GCM_MAX_RECIPIENTS cfg) = Inr cs
           \<and> concat cs = ids
           \<and> length cs = (length ids + nat (GCM_MAX_RECIPIENTS cfg) - 1)
                           div nat (GCM_MAX_RECIPIENTS cfg)
           \<and> (\<forall>k < length cs. cs ! k =
                 take (nat (GCM_MAX_RECIPIENTS cfg)) (drop (k * nat (GCM_MAX_RECIPIENTS cfg)) ids))
           \<and> (\<forall>out w'. gcm_send_bulk_message cfg gw ids d ck dwi ttl w = (Inr out, w') \<longrightarrow>
                 (\<exists>outs reqs ws. out = JList outs \<and> length outs = length cs
                    \<and> sent w' = sent w @ reqs
                    \<and> map body reqs = map (\<lambda>c. envelope c d ck dwi ttl) cs
                    \<and> length ws = Suc (length cs) \<and> ws ! 0 = w \<and> ws ! length cs = w'
                    \<and> (\<forall>k < length cs.
                          gcm_send_json cfg gw (cs ! k) d ck dwi ttl (ws ! k)
                            = (Inr (outs ! k), ws ! Suc k))))
           \<and> (\<forall>e w'. gcm_send_bulk_message cfg gw ids d ck dwi ttl w = (Inl e, w') \<longrightarrow>
                 (\<exists>k wk reqs outs ws. k < length cs \<and> sent wk = sent w @ reqs
                    \<and> map body reqs = map (\<lambda>c. envelope c d ck dwi ttl) (take k cs)
                    \<and> gcm_send_json cfg gw (cs ! k) d ck dwi ttl wk = (Inl e, w')
                    \<and> length outs = k \<and> length ws = Suc k \<and> ws ! 0 = w \<and> ws ! k = wk
                    \<and> (\<forall>j < k.
                          gcm_send_json cfg gw (cs ! j) d ck dwi ttl (ws ! j)
                            = (Inr (outs ! j), ws ! Suc j))))"
proof -
  from chunks_pos [OF pos, of ids] obtain cs where
    cs: "chunks ids (GCM_MAX_RECIPIENTS cfg) = Inr cs" by simp
  note parts = chunks_concat [OF pos cs]
  have ne: "[] \<notin> set cs" by (rule chunks_nonempty(1) [OF pos cs])
  have bulk: "gcm_send_bulk_message cfg gw ids d ck dwi ttl w =
      (case send_chunks cfg gw cs d ck dwi ttl [] w of
         (Inl e, w1) \<Rightarrow> (Inl e, w1) | (Inr ret, w1) \<Rightarrow> (Inr (JList ret), w1))"
    using big by (simp add: gcm_send_bulk_message_def Let_def cs)
  obtain res w1 where run: "send_chunks cfg gw cs d ck dwi ttl [] w = (res, w1)"
    by (cases "send_chunks cfg gw cs d ck dwi ttl [] w")
  have ok: "\<exists>outs reqs ws. out = JList outs \<and> length outs = length cs
                    \<and> sent w' = sent w @ reqs
                    \<and> map body reqs = map (\<lambda>c. envelope c d ck dwi ttl) cs
                    \<and> length ws = Suc (length cs) \<and> ws ! 0 = w \<and> ws ! length cs = w'
                    \<and> (\<forall>k < length cs.
                          gcm_send_json cfg gw (cs ! k) d ck dwi ttl (ws ! k)
                            = (Inr (outs ! k), ws ! Suc k))"
    if h: "gcm_send_bulk_message cfg gw ids d ck dwi ttl w = (Inr out, w')" for out w'
  proof (cases res)
    case (Inl e)
    with h run show ?thesis by (simp add: bulk)
  next
    case (Inr ret)
    with h run have o: "out = JList ret" and w: "w' = w1" by (simp_all add: bulk)
    from send_chunks_ok [OF ne run [unfolded Inr]] obtain reqs where
      log: "sent w1 = sent w @ reqs"
        "map body reqs = map (\<lambda>c. envelope c d ck dwi ttl) cs" by auto
    from send_chunks_outcomes [OF run [unfolded Inr]] obtain rs ws where
      rs: "ret = [] @ rs" and lr: "length rs = length cs"
      and lw: "length ws = Suc (length cs)" and w0: "ws ! 0 = w" and wn: "ws ! length cs = w1"
      and step: "\<forall>k < length cs. gcm_send_json cfg gw (cs ! k) d ck dwi ttl (ws ! k)
                  = (Inr (rs ! k), ws ! Suc k)"
      by (elim exE conjE)
    have ret: "ret = rs" using rs by simp
    show ?thesis
    proof (rule exI [where x = ret], rule exI [where x = reqs], rule exI [where x = ws],
        intro conjI)
      show "out = JList ret" by (rule o)
      show "length ret = length cs" using lr ret by simp
      show "sent w' = sent w @ reqs" using log(1) w by simp
      show "map body reqs = map (\<lambda>c. envelope c d ck dwi ttl) cs" by (rule log(2))
      show "length ws = Suc (length cs)" by (rule lw)
      show "ws ! 0 = w" by (rule w0)
      show "ws ! length cs = w'" using wn w by simp
      show "\<forall>k < length cs. gcm_send_json cfg gw (cs ! k) d ck dwi ttl (ws ! k)
                  = (Inr (ret ! k), ws ! Suc k)" using step ret by simp
    qed
  qed
  have fail: "\<exists>k wk reqs outs ws. k < length cs \<and> sent wk = sent w @ reqs
                    \<and> map body reqs = map (\<lambda>c. envelope c d ck dwi ttl) (take k cs)
                    \<and> gcm_send_json cfg gw (cs ! k) d ck dwi ttl wk = (Inl e, w')
                    \<and> length outs = k \<and> length ws = Suc k \<and> ws ! 0 = w \<and> ws ! k = wk
                    \<and> (\<forall>j < k.
                          gcm_send_json cfg gw (cs ! j) d ck dwi ttl (ws ! j)
                            = (Inr (outs ! j), ws ! Suc j))"
    if h: "gcm_send_bulk_message cfg gw ids d ck dwi ttl w = (Inl e, w')" for e w'
  proof (cases res)
    case (Inr ret)
    with h run show ?thesis by (simp add: bulk)
  next
    case (Inl e1)
    with h run have "send_chunks cfg gw cs d ck dwi ttl [] w = (Inl e, w')"
      by (simp add: bulk)
    from send_chunks_prefix [OF ne this] obtain k rs ws reqs where
      k: "k < length cs" and lr: "length rs = k" and lw: "length ws = Suc k"
      and w0: "ws ! 0 = w"
      and step: "\<forall>j < k. gcm_send_json cfg gw (cs ! j) d ck dwi ttl (ws ! j)
                  = (Inr (rs ! j), ws ! Suc j)"
      and log: "sent (ws ! k) = sent w @ reqs"
      and bodies: "map body reqs = map (\<lambda>c. envelope c d ck dwi ttl) (take k cs)"
      and f: "gcm_send_json cfg gw (cs ! k) d ck dwi ttl (ws ! k) = (Inl e, w')"
      by (elim exE conjE)
    show ?thesis
    proof (rule exI [where x = k], rule exI [where x = "ws ! k"], rule exI [where x = reqs],
        rule exI [where x = rs], rule exI [where x = ws], intro conjI)
      show "k < length cs" by (rule k)
      show "sent (ws ! k) = sent w @ reqs" by (rule log)
      show "map body reqs = map (\<lambda>c. envelope c d ck dwi ttl) (take k cs)" by (rule bodies)
      show "gcm_send_json cfg gw (cs ! k) d ck dwi ttl (ws ! k) = (Inl e, w')" by (rule f)
      show "length rs = k" by (rule lr)
      show "length ws = Suc k" by (rule lw)
      show "ws ! 0 = w" by (rule w0)
      show "ws ! k = ws ! k" by (rule refl)
      show "\<forall>j < k. gcm_send_json cfg gw (cs ! j) d ck dwi ttl (ws ! j)
                  = (Inr (rs ! j), ws ! Suc j)" by (rule step)
    qed
  qed
  show ?thesis
  proof (intro exI [where x = cs] conjI allI impI)
    show "chunks ids (GCM_MAX_RECIPIENTS cfg) = Inr cs" by (rule cs)
    show "concat cs = ids" by (rule parts(1))
    show "length cs = (length ids + nat (GCM_MAX_RECIPIENTS cfg) - 1)
                           div nat (GCM_MAX_RECIPIENTS cfg)" by (rule parts(2))
    show "cs ! k = take (nat (GCM_MAX_RECIPIENTS cfg)) (drop (k * nat (GCM_MAX_RECIPIENTS cfg)) ids)"
      if "k < length cs" for k using parts(3) that by simp
  next
    fix out w' assume "gcm_send_bulk_message cfg gw ids d ck dwi ttl w = (Inr out, w')"
    then show "\<exists>outs reqs ws. out = JList outs \<and> length outs = length cs
                    \<and> sent w' = sent w @ reqs
                    \<and> map body reqs = map (\<lambda>c. envelope c d ck dwi ttl) cs
                    \<and> length ws = Suc (length cs) \<and> ws ! 0 = w \<and> ws ! length cs = w'
                    \<and> (\<forall>k < length cs.
                          gcm_send_json cfg gw (cs ! k) d ck dwi ttl (ws ! k)
                            = (Inr (outs ! k), ws ! Suc k))" by (rule ok)
  next
    fix e w' assume "gcm_send_bulk_message cfg gw ids d ck dwi ttl w = (Inl e, w')"
    then show "\<exists>k wk reqs outs ws. k < length cs \<and> sent wk = sent w @ reqs
                    \<and> map body reqs = map (\<lambda>c. envelope c d ck dwi ttl) (take k cs)
                    \<and> gcm_send_json cfg gw (cs ! k) d ck dwi ttl wk = (Inl e, w')
                    \<and> length outs = k \<and> length ws = Suc k \<and> ws ! 0 = w \<and> ws ! k = wk
                    \<and> (\<forall>j < k.
                          gcm_send_json cfg gw (cs ! j) d ck dwi ttl (ws ! j)
                            = (Inr (outs ! j), ws ! Suc j))" by (rule fail)
  qed
qed

theorem bulk_send_chunks_witness:
  \<open>GCM_MAX_RECIPIENTS (sample_settings (Some ''k'') 1)
      < int (length [JStr ''A'', JStr ''B'', JStr ''C''])
   \<and> (1::int) \<le> GCM_MAX_RECIPIENTS (sample_settings (Some ''k'') 1)
   \<and> fst (gcm_send_bulk_message (sample_settings (Some ''k'') 1) (sample_gateway 7)
          [JStr ''A'', JStr ''B'', JStr ''C''] JNull JNull (JBool False) (JInt 0) sample_world)
     = Inr (JList [JObj [(''multicast_id'', JInt 0)], JObj [(''multicast_id'', JInt 1)],
                   JObj [(''multicast_id'', JInt 2)]])
   \<and> map body (sent (snd (gcm_send_bulk_message (sample_settings (Some ''k'') 1) (sample_gateway 7)
          [JStr ''A'', JStr ''B'', JStr ''C''] JNull JNull (JBool False) (JInt 0) sample_world)))
     = [''{"registration_ids":["A"]}'', ''{"registration_ids":["B"]}'',
        ''{"registration_ids":["C"]}'']
   \<and> (\<exists>cs. chunks (replicate 2500 (JStr ''A'')) 1000 = Inr cs
          \<and> map length cs = [1000, 1000, 500])\<close>
proof -
  let ?cfg = "sample_settings (Some ''k'') 1"
  let ?ids = "[JStr ''A'', JStr ''B'', JStr ''C'']"
  have big: "GCM_MAX_RECIPIENTS ?cfg < int (length ?ids)" by simp
  have pos: "(1::int) \<le> GCM_MAX_RECIPIENTS ?cfg" by simp
  have out: "fst (gcm_send_bulk_message ?cfg (sample_gateway 7) ?ids JNull JNull (JBool False)
        (JInt 0) sample_world)
     = Inr (JList [JObj [(''multicast_id'', JInt 0)], JObj [(''multicast_id'', JInt 1)],
                   JObj [(''multicast_id'', JInt 2)]])"
    by (simp add: gcm_send_bulk_message_def gcm_send_json_def gcm_send_def Let_def json_loads_def
      cm_handle_response_def dict_get_def chunks_def py_range_step_def py_slice_def upt_rec)
  have bodies: \<open>map body (sent (snd (gcm_send_bulk_message ?cfg (sample_gateway 7) ?ids JNull JNull
        (JBool False) (JInt 0) sample_world)))
     = [''{"registration_ids":["A"]}'', ''{"registration_ids":["B"]}'',
        ''{"registration_ids":["C"]}'']\<close>
    by (simp add: gcm_send_bulk_message_def gcm_send_json_def gcm_send_def Let_def json_loads_def
      cm_handle_response_def dict_get_def chunks_def py_range_step_def py_slice_def upt_rec
      gcm_values_def py_encode_basestring_ascii_def escape_char_def)
  let ?big = "sample_settings (Some ''k'') 1000"
  let ?many = "replicate 2500 (JStr ''A'')"
  have big2: "GCM_MAX_RECIPIENTS ?big < int (length ?many)" by simp
  have pos2: "(1::int) \<le> GCM_MAX_RECIPIENTS ?big" by simp
  have sizes: "\<exists>cs. chunks ?many 1000 = Inr cs \<and> map length cs = [1000, 1000, 500]"
    using bulk_send_chunks [OF big2 pos2, of "sample_gateway 7" JNull JNull "JBool False" "JInt 0"
        sample_world]
  proof (elim exE conjE)
    fix cs
    assume c: "chunks ?many (GCM_MAX_RECIPIENTS ?big) = Inr cs"
      and len: "length cs = (length ?many + nat (GCM_MAX_RECIPIENTS ?big) - 1)
                  div nat (GCM_MAX_RECIPIENTS ?big)"
      and nth: "\<forall>k < length cs. cs ! k =
                 take (nat (GCM_MAX_RECIPIENTS ?big)) (drop (k * nat (GCM_MAX_RECIPIENTS ?big)) ?many)"
    have l3: "length cs = 3" using len by simp
    then obtain a b c' where abc: "cs = [a, b, c']"
      by (auto simp: numeral_3_eq_3 length_Suc_conv)
    have "length (cs ! 0) = 1000" "length (cs ! 1) = 1000" "length (cs ! 2) = 500"
      using nth l3 by simp_all
    then have m: "map length cs = [1000, 1000, 500]" by (simp add: abc)
    have c2: "chunks ?many 1000 = Inr cs" using c by simp
    show ?thesis by (rule exI [where x = cs]) (simp only: c2 m)
  qed
  from big pos out bodies sizes show ?thesis by (intro conjI)
qed

text \<open>
  Where C1 fails as stated: three tokens, a batch limit of one, and a gateway whose second
  answer carries an error code that is not terminal. The rejection error of the second
  chunk leaves the loop: two requests are sent, not three, and no list of outcomes is
  returned.
\<close>

theorem bulk_send_chunks_counterexample:
  \<open>chunks [JStr ''A'', JStr ''B'', JStr ''C''] 1 = Inr [[JStr ''A''], [JStr ''B''], [JStr ''C'']]
   \<and> fst (gcm_send_bulk_message (sample_settings (Some ''k'') 1) (sample_gateway 1)
          [JStr ''A'', JStr ''B'', JStr ''C''] JNull JNull (JBool False) (JInt 0) sample_world)
     = Inl (GCMError (sample_response 1 0 [[(''error'', JStr ''Unavailable'')]]))
   \<and> map body (sent (snd (gcm_send_bulk_message (sample_settings (Some ''k'') 1) (sample_gateway 1)
          [JStr ''A'', JStr ''B'', JStr ''C''] JNull JNull (JBool False) (JInt 0) sample_world)))
     = [''{"registration_ids":["A"]}'', ''{"registration_ids":["B"]}'']\<close>
  by (simp add: gcm_send_bulk_message_def gcm_send_json_def gcm_send_def Let_def json_loads_def
      cm_handle_response_def dict_get_def chunks_def py_range_step_def py_slice_def upt_rec
      scan_result_def gcm_values_def py_encode_basestring_ascii_def escape_char_def)

end
